theory Spec2Isabelle
  imports Main "HOL-Library.Monad_Syntax"
begin

section \<open>JavaScript values as the decoder sees them\<close>

text \<open>
  The hooks of \<^verbatim>\<open>profile.ts\<close> receive \<^verbatim>\<open>json: any\<close>: a tree read by
  \<^verbatim>\<open>fse.readJsonSync\<close>. The TypeScript types are erased at run time, so the raw tree is
  modelled untyped. \<open>JUndefined\<close> is what reading a property that is not there gives; it
  never occurs inside a parsed document. Numbers are integers, as the document format
  declares \<^verbatim>\<open>schema_version\<close>. An object is the list of its own properties, with
  distinct keys, as a parsed document has them.
\<close>

datatype jsval =
    JUndefined
  | JNull
  | JBool bool
  | JNum int
  | JStr string
  | JArr "jsval list"
  | JObj "(string \<times> jsval) list"

datatype error =
    SchemaVersionMismatch jsval
  | TypeError
  | FetchError

text \<open>
  \<^verbatim>\<open>_.isEmpty\<close> of lodash: \<^verbatim>\<open>null\<close> and \<^verbatim>\<open>undefined\<close> are empty, a string
  or an array is empty when its length is 0, any other value is empty when it has no own
  enumerable property; so every number and every boolean is empty.
\<close>

fun isEmpty :: "jsval \<Rightarrow> bool" where
  "isEmpty JUndefined = True"
| "isEmpty JNull = True"
| "isEmpty (JBool b) = True"
| "isEmpty (JNum n) = True"
| "isEmpty (JStr s) = (s = [])"
| "isEmpty (JArr xs) = (xs = [])"
| "isEmpty (JObj kvs) = (kvs = [])"

text \<open>
  Reading a property \<^verbatim>\<open>v.k\<close>. On \<^verbatim>\<open>null\<close> and \<^verbatim>\<open>undefined\<close> JavaScript throws a
  TypeError. On an object the own property is read. The property names read by the code
  modelled here (\<^verbatim>\<open>schema_version\<close>, \<^verbatim>\<open>schema_created_at\<close>,
  \<^verbatim>\<open>schema_collected_ats\<close>, \<^verbatim>\<open>event_id\<close>) are no properties of the built-in
  prototypes, so on every other value the result is \<^verbatim>\<open>undefined\<close>.
\<close>

fun getProp :: "jsval \<Rightarrow> string \<Rightarrow> error + jsval" where
  "getProp JUndefined k = Inl TypeError"
| "getProp JNull k = Inl TypeError"
| "getProp (JObj kvs) k = Inr (case map_of kvs k of None \<Rightarrow> JUndefined | Some v \<Rightarrow> v)"
| "getProp v k = Inr JUndefined"


section \<open>MetaField\<close>

text \<open>
  The class \<^verbatim>\<open>MetaField\<close>. The two array fields are held by value (\<open>'a = jsval\<close>) where
  a raw document is decoded, and by reference (\<open>'a = addr\<close>) where \<^verbatim>\<open>updateMeta\<close>
  mutates them. The other fields hold whatever the document held.
\<close>

record 'a MetaField =
  agent :: jsval
  github_user :: jsval
  github_repository :: jsval
  ignored_repositories :: 'a
  schema_version :: jsval
  schema_created_at :: jsval
  schema_collected_ats :: 'a

definition PROFILE_SCHEMA_VERSION :: int where
  "PROFILE_SCHEMA_VERSION = 1"

text \<open>
  Modelled from the spec: \<^verbatim>\<open>Util.reportMessageAndExit\<close> (\<^verbatim>\<open>util.ts\<close> is not among the
  sources). The spec says that decoding fails with SchemaVersionMismatch and never
  migrates; the error keeps the rejected value, which the message of the source prints.
\<close>

definition reportMessageAndExit :: "jsval \<Rightarrow> error + 'b" where
  "reportMessageAndExit profSchemaVersion = Inl (SchemaVersionMismatch profSchemaVersion)"

text \<open>
  \<^verbatim>\<open>MetaField.OnDeserialized(instance, json)\<close>. \<^verbatim>\<open>MetaField.CURRENT_DATE\<close> is computed
  once when the module is loaded; it is the parameter \<open>CURRENT_DATE\<close>. The comparisons
  \<^verbatim>\<open>!==\<close> are strict: only \<^verbatim>\<open>null\<close> is equal to \<^verbatim>\<open>null\<close>, only the number 1 is equal
  to 1. \<^verbatim>\<open>new Array<string>(CURRENT_DATE)\<close> with one string argument is the array of that
  one element.
\<close>

definition OnDeserialized ::
  "string \<Rightarrow> jsval MetaField \<Rightarrow> jsval \<Rightarrow> error + jsval MetaField" where
  "OnDeserialized CURRENT_DATE instance json =
     (case getProp json ''schema_version'' of
        Inl e \<Rightarrow> Inl e
      | Inr profSchemaVersion \<Rightarrow>
          if JNull \<noteq> profSchemaVersion \<and> profSchemaVersion \<noteq> JNum PROFILE_SCHEMA_VERSION
          then reportMessageAndExit profSchemaVersion
          else
            let profSchemaVersion' =
                  (if isEmpty profSchemaVersion then JNum PROFILE_SCHEMA_VERSION
                   else profSchemaVersion);
                instance1 = instance\<lparr>schema_version := profSchemaVersion'\<rparr>
            in (case getProp json ''schema_created_at'' of
                  Inl e \<Rightarrow> Inl e
                | Inr created_at \<Rightarrow>
                    let created_at' =
                          (if isEmpty created_at then JStr CURRENT_DATE else created_at);
                        instance2 = instance1\<lparr>schema_created_at := created_at'\<rparr>
                    in (case getProp json ''schema_collected_ats'' of
                          Inl e \<Rightarrow> Inl e
                        | Inr collected_ats \<Rightarrow>
                            let collected_ats' =
                                  (if isEmpty collected_ats then JArr [JStr CURRENT_DATE]
                                   else collected_ats)
                            in Inr (instance2\<lparr>schema_collected_ats := collected_ats'\<rparr>))))"


text \<open>
  The instance that the hook receives is made by \<^verbatim>\<open>new MetaField()\<close>: these are the
  field initialisers of the class, by value. (The deserialiser then assigns the decorated
  fields; the theorems on the hook hold for every instance.)
\<close>

definition MetaField_init :: "string \<Rightarrow> jsval MetaField" where
  "MetaField_init CURRENT_DATE =
     \<lparr>agent = JUndefined, github_user = JUndefined, github_repository = JUndefined,
      ignored_repositories = JArr [],
      schema_version = JNum PROFILE_SCHEMA_VERSION,
      schema_created_at = JStr CURRENT_DATE,
      schema_collected_ats = JArr [JStr CURRENT_DATE]\<rparr>"

text \<open>What \<^verbatim>\<open>json.k\<close> reads where it does not throw: the raw field of a document.\<close>

definition rawField :: "jsval \<Rightarrow> string \<Rightarrow> jsval" where
  "rawField json k = (case getProp json k of Inl e \<Rightarrow> JUndefined | Inr v \<Rightarrow> v)"


section \<open>Merging the activities (the \<^verbatim>\<open>profile\<close> command)\<close>

text \<open>
  The callback of \<^verbatim>\<open>CommandSetting.COMMAND_PROFILE\<close> after \<^verbatim>\<open>createProfile\<close> has
  returned. An activity is a JavaScript object; \<^verbatim>\<open>concat\<close> builds a new array, so the
  arrays are held by value. First the entries that \<^verbatim>\<open>_.isEmpty\<close> accepts are removed.
\<close>

definition allActs :: "jsval list \<Rightarrow> jsval list \<Rightarrow> jsval list" where
  "allActs currentActs prevActs = filter (\<lambda>a. \<not> isEmpty a) (currentActs @ prevActs)"

text \<open>
  The \<^verbatim>\<open>for\<close> loop over \<^verbatim>\<open>allActs\<close>, with the set \<^verbatim>\<open>uniqEventIds\<close> and the array
  \<^verbatim>\<open>uniqActs\<close> as it grows. \<^verbatim>\<open>Set.has\<close> compares with SameValueZero, which on strings,
  numbers, booleans, \<^verbatim>\<open>null\<close> and \<^verbatim>\<open>undefined\<close> is equality of the values; \<^verbatim>\<open>event_id\<close>
  is declared a string. (Two objects would be compared by identity, which a tree does not
  show: the theorems below are about ids that are no objects, see \<open>isEvent\<close>.)
\<close>

fun uniqLoop :: "jsval list \<Rightarrow> jsval set \<Rightarrow> jsval list \<Rightarrow> error + jsval list" where
  "uniqLoop [] uniqEventIds uniqActs = Inr uniqActs"
| "uniqLoop (act # rest) uniqEventIds uniqActs =
     (case getProp act ''event_id'' of
        Inl e \<Rightarrow> Inl e
      | Inr event_id \<Rightarrow>
          if event_id \<notin> uniqEventIds
          then uniqLoop rest (insert event_id uniqEventIds) (uniqActs @ [act])
          else uniqLoop rest uniqEventIds uniqActs)"

definition mergeActivities :: "jsval list \<Rightarrow> jsval list \<Rightarrow> error + jsval list" where
  "mergeActivities currentActs prevActs = uniqLoop (allActs currentActs prevActs) {} []"


text \<open>
  The words of the specification of the merge. The id of an entry is what \<^verbatim>\<open>act.event_id\<close>
  reads. An event is an entry that \<^verbatim>\<open>_.isEmpty\<close> rejects and whose id is no object or
  array. \<open>firstOccurrences\<close> keeps the entry at index \<open>i\<close> when no entry before it has
  the same id, in the order of the list. \<open>keepFirst\<close> is the loop as a function of what
  is left to scan.
\<close>

definition eventIdOf :: "jsval \<Rightarrow> jsval" where
  "eventIdOf a = rawField a ''event_id''"

fun primitive :: "jsval \<Rightarrow> bool" where
  "primitive (JArr xs) = False"
| "primitive (JObj kvs) = False"
| "primitive v = True"

definition isEvent :: "jsval \<Rightarrow> bool" where
  "isEvent a \<longleftrightarrow> \<not> isEmpty a \<and> primitive (eventIdOf a)"

definition firstOccurrences :: "jsval list \<Rightarrow> jsval list" where
  "firstOccurrences xs =
     map (\<lambda>i. xs ! i)
       (filter (\<lambda>i. \<forall>j<i. eventIdOf (xs ! j) \<noteq> eventIdOf (xs ! i)) [0..<length xs])"

fun keepFirst :: "jsval set \<Rightarrow> jsval list \<Rightarrow> jsval list" where
  "keepFirst seen [] = []"
| "keepFirst seen (a # as) =
     (if eventIdOf a \<in> seen then keepFirst seen as
      else a # keepFirst (insert (eventIdOf a) seen) as)"


section \<open>The store: profiles and metadata by reference\<close>

text \<open>
  \<^verbatim>\<open>Profile.updateMeta\<close> copies an object, pushes onto an array and assigns fields of
  objects that its caller still holds, so objects and arrays live in a store and are named
  by address. \<open>fresh\<close> is the next address that \<^verbatim>\<open>new\<close> hands out.
\<close>

type_synonym addr = nat

record Profile =
  meta :: addr
  user :: jsval
  languages :: jsval
  repositories :: jsval
  activities :: "jsval list"

record store =
  arrays :: "addr \<rightharpoonup> string list"
  metas :: "addr \<rightharpoonup> addr MetaField"
  profiles :: "addr \<rightharpoonup> Profile"
  fresh :: addr

definition newArray :: "string list \<Rightarrow> store \<Rightarrow> addr \<times> store" where
  "newArray xs s = (fresh s, s\<lparr>arrays := (arrays s)(fresh s \<mapsto> xs), fresh := Suc (fresh s)\<rparr>)"

definition newObject :: "addr MetaField \<Rightarrow> store \<Rightarrow> addr \<times> store" where
  "newObject m s = (fresh s, s\<lparr>metas := (metas s)(fresh s \<mapsto> m), fresh := Suc (fresh s)\<rparr>)"

text \<open>\<^verbatim>\<open>array.push(value)\<close>: the array at that address grows in place.\<close>

definition push :: "addr \<Rightarrow> string \<Rightarrow> store \<Rightarrow> store option" where
  "push a v s =
     (case arrays s a of
        None \<Rightarrow> None
      | Some xs \<Rightarrow> Some (s\<lparr>arrays := (arrays s)(a \<mapsto> xs @ [v])\<rparr>))"

text \<open>
  \<^verbatim>\<open>_.union\<close> of lodash: a new array of the values of both arrays, each once, in the order
  in which they first occur.
\<close>

definition union_lodash :: "string list \<Rightarrow> string list \<Rightarrow> string list" where
  "union_lodash xs ys =
     foldl (\<lambda>result v. if v \<in> set result then result else result @ [v]) [] (xs @ ys)"

text \<open>
  Modelled from the spec: \<^verbatim>\<open>Util.copyObject\<close> (\<^verbatim>\<open>util.ts\<close> is not among the sources).
  The spec says that the merge copies \<^verbatim>\<open>previous.meta\<close> and that the previous snapshot is
  immutable: that is the copy \<open>Deep\<close>, a new object with new arrays of the same contents.
  Whether the copy shares the arrays of its source is left a parameter: \<open>Shallow\<close> is a
  new object whose fields are those of the source, arrays included.
\<close>

datatype copy_depth = Shallow | Deep

fun copyObject :: "copy_depth \<Rightarrow> addr \<Rightarrow> store \<Rightarrow> (addr \<times> store) option" where
  "copyObject Shallow object s =
     (case metas s object of
        None \<Rightarrow> None
      | Some m \<Rightarrow> Some (newObject m s))"
| "copyObject Deep object s =
     (case metas s object of
        None \<Rightarrow> None
      | Some m \<Rightarrow>
          (case (arrays s (ignored_repositories m), arrays s (schema_collected_ats m)) of
             (Some ignored, Some collected) \<Rightarrow>
               let (ignored', s1) = newArray ignored s;
                   (collected', s2) = newArray collected s1
               in Some (newObject (m\<lparr>ignored_repositories := ignored',
                                     schema_collected_ats := collected'\<rparr>) s2)
           | _ \<Rightarrow> None))"

text \<open>
  \<^verbatim>\<open>Profile.updateMeta(currentProfile, prevMeta)\<close>, statement by statement. A result
  \<open>None\<close> is an address that names nothing in the store, which no JavaScript reference
  does.
\<close>

definition updateMeta ::
  "copy_depth \<Rightarrow> string \<Rightarrow> addr \<Rightarrow> addr \<Rightarrow> store \<Rightarrow> (addr \<times> store) option" where
  "updateMeta depth CURRENT_DATE currentProfile prevMeta s = do {
     p \<leftarrow> profiles s currentProfile;
     let currentMeta = meta p;
     (meta', s1) \<leftarrow> copyObject depth prevMeta s;
     m \<leftarrow> metas s1 meta';
     s2 \<leftarrow> push (schema_collected_ats m) CURRENT_DATE s1;
     cm \<leftarrow> metas s2 currentMeta;
     pm \<leftarrow> metas s2 prevMeta;
     xs \<leftarrow> arrays s2 (ignored_repositories cm);
     ys \<leftarrow> arrays s2 (ignored_repositories pm);
     let (u, s3) = newArray (union_lodash xs ys) s2;
     m3 \<leftarrow> metas s3 meta';
     let s4 = s3\<lparr>metas := (metas s3)(meta' \<mapsto> m3\<lparr>ignored_repositories := u\<rparr>)\<rparr>;
     p4 \<leftarrow> profiles s4 currentProfile;
     let s5 = s4\<lparr>profiles := (profiles s4)(currentProfile \<mapsto> p4\<lparr>meta := meta'\<rparr>)\<rparr>;
     Some (currentProfile, s5)
   }"

text \<open>
  \<^verbatim>\<open>new MetaField()\<close> and \<^verbatim>\<open>new Profile()\<close> with the field initialisers of the classes;
  a field without initialiser is \<^verbatim>\<open>undefined\<close>.
\<close>

definition new_MetaField :: "string \<Rightarrow> store \<Rightarrow> addr \<times> store" where
  "new_MetaField CURRENT_DATE s =
     (let (ignored, s1) = newArray [] s;
          (collected, s2) = newArray [CURRENT_DATE] s1
      in newObject \<lparr>agent = JUndefined, github_user = JUndefined,
                     github_repository = JUndefined, ignored_repositories = ignored,
                     schema_version = JNum PROFILE_SCHEMA_VERSION,
                     schema_created_at = JStr CURRENT_DATE,
                     schema_collected_ats = collected\<rparr> s2)"

definition new_Profile :: "string \<Rightarrow> store \<Rightarrow> addr \<times> store" where
  "new_Profile CURRENT_DATE s =
     (let (m, s1) = new_MetaField CURRENT_DATE s
      in (fresh s1,
          s1\<lparr>profiles := (profiles s1)(fresh s1 \<mapsto>
                \<lparr>meta = m, user = JUndefined, languages = JUndefined,
                 repositories = JUndefined, activities = []\<rparr>),
             fresh := Suc (fresh s1)\<rparr>))"

text \<open>
  What the four requests of \<^verbatim>\<open>GithubUtil\<close> give (the client is not among the sources):
  each \<^verbatim>\<open>await\<close> either yields a value or rejects, and a rejection ends
  \<^verbatim>\<open>createProfile\<close> with that error. The languages depend on the ignore list that is
  sent.
\<close>

record github =
  getGithubUser :: "error + jsval"
  getUserRepositories :: "error + jsval"
  getUserLanguages :: "string list \<Rightarrow> error + jsval"
  getUserActivities :: "error + jsval list"


subsection \<open>\<^verbatim>\<open>printProfile\<close>: where the report throws\<close>

text \<open>
  \<^verbatim>\<open>printProfile\<close> writes to the console and returns nothing, but it reads properties
  and calls methods of what was fetched, and each of these can throw a TypeError, which
  ends \<^verbatim>\<open>createProfile\<close> before \<^verbatim>\<open>updateMeta\<close> runs. The model keeps every such
  place and leaves out what is printed. The functions of \<^verbatim>\<open>Log\<close> (\<^verbatim>\<open>util.ts\<close>, not
  among the sources) are taken to print and return.

  Turning a value into a string (for a property key, for \<^verbatim>\<open>join\<close>, for \<^verbatim>\<open>+=\<close>) throws
  on an object that has an own property \<^verbatim>\<open>toString\<close>, since no parsed value is a
  function, and on an array that holds such an object; every other object is
  \<^verbatim>\<open>[object Object]\<close>. \<^verbatim>\<open>join\<close> writes \<^verbatim>\<open>null\<close> and \<^verbatim>\<open>undefined\<close> as the empty
  string. A number is written in decimal.
\<close>

fun stringifies :: "jsval \<Rightarrow> bool" where
  "stringifies (JArr xs) = (\<forall>x\<in>set xs. stringifies x)"
| "stringifies (JObj kvs) = (map_of kvs ''toString'' = None)"
| "stringifies v = True"

fun showNat :: "nat \<Rightarrow> string" where
  "showNat n =
     (if n < 10 then [''0123456789'' ! n]
      else showNat (n div 10) @ [''0123456789'' ! (n mod 10)])"

definition showInt :: "int \<Rightarrow> string" where
  "showInt i = (if i < 0 then CHR ''-'' # showNat (nat (- i)) else showNat (nat i))"

fun joinComma :: "string list \<Rightarrow> string" where
  "joinComma [] = []"
| "joinComma [x] = x"
| "joinComma (x # y # ys) = x @ '','' @ joinComma (y # ys)"

fun toStr :: "jsval \<Rightarrow> string" where
  "toStr JUndefined = ''undefined''"
| "toStr JNull = ''null''"
| "toStr (JBool b) = (if b then ''true'' else ''false'')"
| "toStr (JNum n) = showInt n"
| "toStr (JStr s) = s"
| "toStr (JArr xs) =
     joinComma (map (\<lambda>x. if x = JNull \<or> x = JUndefined then [] else toStr x) xs)"
| "toStr (JObj kvs) = ''[object Object]''"

text \<open>\<^verbatim>\<open>user.login\<close>, \<^verbatim>\<open>user.created_at\<close> and so on, one read after the other.\<close>

fun readAll :: "jsval \<Rightarrow> string list \<Rightarrow> error + unit" where
  "readAll v [] = Inr ()"
| "readAll v (k # ks) = (case getProp v k of Inl e \<Rightarrow> Inl e | Inr x \<Rightarrow> readAll v ks)"

text \<open>\<^verbatim>\<open>xs.map(x => x.k)\<close> on an array.\<close>

fun pluck :: "string \<Rightarrow> jsval list \<Rightarrow> error + jsval list" where
  "pluck k [] = Inr []"
| "pluck k (x # xs) =
     (case getProp x k of
        Inl e \<Rightarrow> Inl e
      | Inr v \<Rightarrow> (case pluck k xs of Inl e \<Rightarrow> Inl e | Inr vs \<Rightarrow> Inr (v # vs)))"

text \<open>
  \<^verbatim>\<open>v.length === 0\<close>, read only where \<^verbatim>\<open>_.isEmpty(v)\<close> is false: \<^verbatim>\<open>length\<close> is the
  length of a string or an array and an own property of an object.
\<close>

fun lengthIsZero :: "jsval \<Rightarrow> bool" where
  "lengthIsZero (JStr s) = (s = [])"
| "lengthIsZero (JArr xs) = (xs = [])"
| "lengthIsZero (JObj kvs) = (map_of kvs ''length'' = Some (JNum 0))"
| "lengthIsZero v = False"

text \<open>
  The \<^verbatim>\<open>reduce\<close> over \<^verbatim>\<open>langInfos\<close>: \<open>acc\<close> holds the names added to the set so far
  (the set drops repeats, which does not change whether a later step throws).
  \<^verbatim>\<open>languages.map\<close> is a function on an array only.
\<close>

fun langSet :: "jsval list \<Rightarrow> jsval list \<Rightarrow> error + jsval list" where
  "langSet [] acc = Inr acc"
| "langSet (langInfo # rest) acc =
     (case getProp langInfo ''languages'' of
        Inl e \<Rightarrow> Inl e
      | Inr languages' \<Rightarrow>
          if isEmpty languages' \<or> lengthIsZero languages' then langSet rest acc
          else (case languages' of
                  JArr langs \<Rightarrow>
                    (case pluck ''name'' langs of
                       Inl e \<Rightarrow> Inl e
                     | Inr names \<Rightarrow> langSet rest (acc @ names))
                | _ \<Rightarrow> Inl TypeError))"

text \<open>
  The language block: \<^verbatim>\<open>langInfos.reduce\<close> is a function on an array only, and
  \<^verbatim>\<open>Array.from(langSet).join(", ")\<close> turns every name into a string.
\<close>

definition printLanguages :: "jsval \<Rightarrow> error + unit" where
  "printLanguages langInfos =
     (if isEmpty langInfos then Inr ()
      else (case langInfos of
              JArr infos \<Rightarrow>
                (case langSet infos [] of
                   Inl e \<Rightarrow> Inl e
                 | Inr names \<Rightarrow> if \<forall>n\<in>set names. stringifies n then Inr () else Inl TypeError)
            | _ \<Rightarrow> Inl TypeError))"

text \<open>
  Modelled from the spec: \<^verbatim>\<open>RepositorySummary\<close> (\<^verbatim>\<open>github_model.ts\<close> is not among the
  sources), the aggregate repository counters: a new summary has an empty list of names
  and counters that are numbers. Then, in the \<^verbatim>\<open>reduce\<close> over \<^verbatim>\<open>repos\<close>, reading
  \<^verbatim>\<open>repo.name\<close> throws on \<^verbatim>\<open>null\<close> and \<^verbatim>\<open>undefined\<close>, and each \<^verbatim>\<open>+=\<close> turns its
  right operand into a primitive value.
\<close>

fun repoSum :: "jsval list \<Rightarrow> error + unit" where
  "repoSum [] = Inr ()"
| "repoSum (repo # rest) =
     (case getProp repo ''name'' of
        Inl e \<Rightarrow> Inl e
      | Inr name \<Rightarrow>
          if stringifies (rawField repo ''watchers_count'')
             \<and> stringifies (rawField repo ''stargazers_count'')
             \<and> stringifies (rawField repo ''forks_count'')
          then repoSum rest else Inl TypeError)"

definition printRepositories :: "jsval \<Rightarrow> error + unit" where
  "printRepositories repos =
     (if isEmpty repos then Inr ()
      else (case repos of JArr rs \<Rightarrow> repoSum rs | _ \<Rightarrow> Inl TypeError))"

text \<open>
  \<^verbatim>\<open>currentActs.filter(act => !prevActIds.has(act.event_id))\<close>; the ids are compared as
  in the merge of the activities: \<^verbatim>\<open>event_id\<close> is declared a string, and on strings,
  numbers, booleans, \<^verbatim>\<open>null\<close> and \<^verbatim>\<open>undefined\<close> \<^verbatim>\<open>Set.has\<close> is equality of the values.
  (An id that is an object or an array is outside the declared type; the set would compare
  it by identity, which a tree does not show.)
\<close>

fun filterNew :: "jsval set \<Rightarrow> jsval list \<Rightarrow> error + jsval list" where
  "filterNew prevActIds [] = Inr []"
| "filterNew prevActIds (act # rest) =
     (case getProp act ''event_id'' of
        Inl e \<Rightarrow> Inl e
      | Inr event_id \<Rightarrow>
          (case filterNew prevActIds rest of
             Inl e \<Rightarrow> Inl e
           | Inr news \<Rightarrow> Inr (if event_id \<notin> prevActIds then act # news else news)))"

text \<open>
  The loop that counts the new activities by type; \<open>keys\<close> are the own properties of
  \<^verbatim>\<open>eventTypeToCount\<close> so far. The object starts empty and
  \<^verbatim>\<open>eventTypeToCount.hasOwnProperty\<close> is called on it: once an activity of type
  \<^verbatim>\<open>hasOwnProperty\<close> has been counted, that property is a number, and the next call
  throws. Assigning to the key \<^verbatim>\<open>__proto__\<close> makes no own property.
\<close>

fun countTypes :: "jsval list \<Rightarrow> string set \<Rightarrow> error + string set" where
  "countTypes [] keys = Inr keys"
| "countTypes (act # rest) keys =
     (if ''hasOwnProperty'' \<in> keys then Inl TypeError
      else (case getProp act ''type'' of
              Inl e \<Rightarrow> Inl e
            | Inr type' \<Rightarrow>
                if \<not> stringifies type' then Inl TypeError
                else countTypes rest
                       (if toStr type' = ''__proto__'' then keys else insert (toStr type') keys)))"

text \<open>
  The activity block. After the loop,
  \<^verbatim>\<open>Object.keys(eventTypeToCount).filter(type => eventTypeToCount.hasOwnProperty(type))\<close>
  calls \<^verbatim>\<open>hasOwnProperty\<close> once for every key.
\<close>

definition printActivities :: "jsval list \<Rightarrow> jsval list \<Rightarrow> error + unit" where
  "printActivities prevActs currentActs =
     (case pluck ''event_id'' prevActs of
        Inl e \<Rightarrow> Inl e
      | Inr prevActIds \<Rightarrow>
          (case filterNew (set prevActIds) currentActs of
             Inl e \<Rightarrow> Inl e
           | Inr newActs \<Rightarrow>
               if length prevActs \<noteq> length currentActs
               then (case countTypes newActs {} of
                       Inl e \<Rightarrow> Inl e
                     | Inr keys \<Rightarrow>
                         if ''hasOwnProperty'' \<in> keys then Inl TypeError else Inr ())
               else Inr ()))"

text \<open>
  \<^verbatim>\<open>printProfile(user, langInfos, repos, prevProfile, currentProfile, ignoredRepos)\<close>:
  of the two profiles only the activities are read, and the ignore list is only
  printed.
\<close>

definition printProfile ::
  "jsval \<Rightarrow> jsval \<Rightarrow> jsval \<Rightarrow> jsval list \<Rightarrow> jsval list \<Rightarrow> error + unit" where
  "printProfile user' langInfos repos prevActs currentActs =
     (case readAll user' [''login'', ''created_at'', ''following'', ''followers'',
                         ''public_repos'', ''public_gists''] of
        Inl e \<Rightarrow> Inl e
      | Inr u \<Rightarrow>
          (case printLanguages langInfos of
             Inl e \<Rightarrow> Inl e
           | Inr l \<Rightarrow>
               (case printRepositories repos of
                  Inl e \<Rightarrow> Inl e
                | Inr r \<Rightarrow> printActivities prevActs currentActs)))"


subsection \<open>\<^verbatim>\<open>createProfile\<close>\<close>

text \<open>
  \<^verbatim>\<open>createProfile(token, prevProf, ignoredRepos)\<close> of \<^verbatim>\<open>profile.ts\<close>, statement by
  statement. \<^verbatim>\<open>GithubEvent.mergeByEventId\<close> is not among the sources and is a parameter,
  which may throw as well. The result is \<open>None\<close> for an address that names nothing in
  the store, \<open>Some (Inl e)\<close> when the promise is rejected with \<open>e\<close> (a request, the merge
  of the activities or \<^verbatim>\<open>printProfile\<close> failed; until then only new objects were
  written), and \<open>Some (Inr (profile, store))\<close> when it is fulfilled.
\<close>

definition createProfile ::
  "copy_depth \<Rightarrow> string \<Rightarrow> github \<Rightarrow> (jsval list \<Rightarrow> jsval list \<Rightarrow> error + jsval list) \<Rightarrow>
   addr \<Rightarrow> addr \<Rightarrow> store \<Rightarrow> (error + addr \<times> store) option" where
  "createProfile depth CURRENT_DATE api mergeByEventId prevProf ignoredRepos s =
     (case profiles s prevProf of None \<Rightarrow> None | Some pp \<Rightarrow>
     (case metas s (meta pp) of None \<Rightarrow> None | Some pm \<Rightarrow>
     (let user' = github_user pm;
          (currentProf, s1) = new_Profile CURRENT_DATE s
      in
     (case profiles s1 currentProf of None \<Rightarrow> None | Some cp \<Rightarrow>
     (case metas s1 (meta cp) of None \<Rightarrow> None | Some cm \<Rightarrow>
     (let s2 = s1\<lparr>metas := (metas s1)(meta cp \<mapsto> cm\<lparr>ignored_repositories := ignoredRepos\<rparr>)\<rparr>
      in
     (case arrays s2 ignoredRepos of None \<Rightarrow> None | Some requested \<Rightarrow>
     (case arrays s2 (ignored_repositories pm) of None \<Rightarrow> None | Some previous \<Rightarrow>
     (let allIgnoredRepos = union_lodash requested previous
      in
     (case getGithubUser api of Inl e \<Rightarrow> Some (Inl e) | Inr githubUser \<Rightarrow>
     (case getUserRepositories api of Inl e \<Rightarrow> Some (Inl e) | Inr repos \<Rightarrow>
     (case getUserLanguages api allIgnoredRepos of Inl e \<Rightarrow> Some (Inl e) | Inr langs \<Rightarrow>
     (case getUserActivities api of Inl e \<Rightarrow> Some (Inl e) | Inr currentActs \<Rightarrow>
     (case mergeByEventId (activities pp) currentActs of
        Inl e \<Rightarrow> Some (Inl e) | Inr uniqActs \<Rightarrow>
     (let s3 = s2\<lparr>profiles := (profiles s2)(currentProf \<mapsto>
                     cp\<lparr>activities := uniqActs,
                        repositories := repos,
                        languages := langs,
                        user := githubUser\<rparr>)\<rparr>
      in
     (case printProfile githubUser langs repos (activities pp) uniqActs of
        Inl e \<Rightarrow> Some (Inl e) | Inr printed \<Rightarrow>
     (case updateMeta depth CURRENT_DATE currentProf (meta pp) s3 of
        None \<Rightarrow> None | Some (p, s4) \<Rightarrow>
        Some (Inr (currentProf, s4)))))))))))))))))))"


text \<open>
  The ignore list of a profile as the store holds it, and a sequence of merges: each run
  has its own \<open>CURRENT_DATE\<close>, its own answers of the platform and its own requested
  ignore list (a new array), and merges into the profile that the run before it produced.
  The sequence ends at the first run that fails. The result is the ignore list after each
  run.
\<close>

definition ignoredOf :: "store \<Rightarrow> addr \<Rightarrow> string list option" where
  "ignoredOf s profile = do {
     p \<leftarrow> profiles s profile;
     m \<leftarrow> metas s (meta p);
     arrays s (ignored_repositories m)
   }"

fun merges ::
  "copy_depth \<Rightarrow> (jsval list \<Rightarrow> jsval list \<Rightarrow> error + jsval list) \<Rightarrow> addr \<Rightarrow>
   (string \<times> github \<times> string list) list \<Rightarrow> store \<Rightarrow> (error + string list list) option" where
  "merges depth mergeByEventId prevProf [] s = Some (Inr [])"
| "merges depth mergeByEventId prevProf ((CURRENT_DATE, api, requested) # runs) s =
     (let (ignoredRepos, s1) = newArray requested s
      in case createProfile depth CURRENT_DATE api mergeByEventId prevProf ignoredRepos s1 of
           None \<Rightarrow> None
         | Some (Inl e) \<Rightarrow> Some (Inl e)
         | Some (Inr (currentProf, s2)) \<Rightarrow>
             (case ignoredOf s2 currentProf of
                None \<Rightarrow> None
              | Some ignored \<Rightarrow>
                  (case merges depth mergeByEventId currentProf runs s2 of
                     None \<Rightarrow> None
                   | Some (Inl e) \<Rightarrow> Some (Inl e)
                   | Some (Inr rest) \<Rightarrow> Some (Inr (ignored # rest)))))"


text \<open>
  The statements of \<^verbatim>\<open>createProfile\<close> that can reject, from the first \<^verbatim>\<open>await\<close> to
  \<^verbatim>\<open>printProfile\<close>, as one function of the ignore list that is sent and of the previous
  activities: the error of the first statement that fails, or what was fetched and merged.
  \<open>runsOk\<close> says of a sequence of runs that none of them rejects there; each run sends
  the union of its requested list with the list of the run before, and reports against the
  activities that the run before merged.
\<close>

definition fetched ::
  "github \<Rightarrow> (jsval list \<Rightarrow> jsval list \<Rightarrow> error + jsval list) \<Rightarrow> string list \<Rightarrow>
   jsval list \<Rightarrow> error + jsval \<times> jsval \<times> jsval \<times> jsval list" where
  "fetched api mergeByEventId allIgnoredRepos prevActs =
     (case getGithubUser api of Inl e \<Rightarrow> Inl e | Inr githubUser \<Rightarrow>
     (case getUserRepositories api of Inl e \<Rightarrow> Inl e | Inr repos \<Rightarrow>
     (case getUserLanguages api allIgnoredRepos of Inl e \<Rightarrow> Inl e | Inr langs \<Rightarrow>
     (case getUserActivities api of Inl e \<Rightarrow> Inl e | Inr currentActs \<Rightarrow>
     (case mergeByEventId prevActs currentActs of Inl e \<Rightarrow> Inl e | Inr uniqActs \<Rightarrow>
     (case printProfile githubUser langs repos prevActs uniqActs of
        Inl e \<Rightarrow> Inl e | Inr printed \<Rightarrow> Inr (githubUser, repos, langs, uniqActs)))))))"

fun runsOk ::
  "(jsval list \<Rightarrow> jsval list \<Rightarrow> error + jsval list) \<Rightarrow> string list \<Rightarrow> jsval list \<Rightarrow>
   (string \<times> github \<times> string list) list \<Rightarrow> bool" where
  "runsOk mergeByEventId previous prevActs [] = True"
| "runsOk mergeByEventId previous prevActs ((CURRENT_DATE, api, requested) # runs) =
     (case fetched api mergeByEventId (union_lodash requested previous) prevActs of
        Inl e \<Rightarrow> False
      | Inr (githubUser, repos, langs, uniqActs) \<Rightarrow>
          runsOk mergeByEventId (union_lodash requested previous) uniqActs runs)"


text \<open>
  A store as JavaScript can build it: every address in use was handed out before, every
  reference names an object of the store, and the two array fields of a MetaField are two
  arrays (the initialisers of the class make two, \<^verbatim>\<open>_.union\<close> makes a new one).
\<close>

definition wf_store :: "store \<Rightarrow> bool" where
  "wf_store s \<longleftrightarrow>
     (\<forall>a xs. arrays s a = Some xs \<longrightarrow> a < fresh s)
   \<and> (\<forall>a m. metas s a = Some m \<longrightarrow>
          a < fresh s
        \<and> ignored_repositories m \<in> dom (arrays s)
        \<and> schema_collected_ats m \<in> dom (arrays s)
        \<and> ignored_repositories m \<noteq> schema_collected_ats m)
   \<and> (\<forall>a p. profiles s a = Some p \<longrightarrow> a < fresh s \<and> meta p \<in> dom (metas s))"

text \<open>
  The scenario of the spec: a previous snapshot (profile 3, MetaField 2) with one
  activity, one collection timestamp and \<open>repoA\<close> ignored; a current profile 7 whose
  MetaField 6 holds the requested ignore list \<open>repoB\<close>.
\<close>

definition scenario_store :: store where
  "scenario_store =
     \<lparr>arrays = [0 \<mapsto> [''repoA''], 1 \<mapsto> [''2020-01-01T00:00:00Z''],
                4 \<mapsto> [''repoB''], 5 \<mapsto> [''2020-02-01T00:00:00Z'']],
      metas = [2 \<mapsto> \<lparr>agent = JStr ''oh-my-github'', github_user = JStr ''1ambda'',
                         github_repository = JStr ''oh-my-github'',
                         ignored_repositories = 0, schema_version = JNum 1,
                         schema_created_at = JStr ''2020-01-01T00:00:00Z'',
                         schema_collected_ats = 1\<rparr>,
               6 \<mapsto> \<lparr>agent = JUndefined, github_user = JUndefined,
                         github_repository = JUndefined,
                         ignored_repositories = 4, schema_version = JNum 1,
                         schema_created_at = JStr ''2020-02-01T00:00:00Z'',
                         schema_collected_ats = 5\<rparr>],
      profiles = [3 \<mapsto> \<lparr>meta = 2, user = JNull, languages = JArr [], repositories = JArr [],
                            activities = [JObj [(''event_id'', JStr ''1''),
                                                (''type'', JStr ''PushEvent'')]]\<rparr>,
                  7 \<mapsto> \<lparr>meta = 6, user = JNull, languages = JArr [], repositories = JArr [],
                            activities = [JObj [(''event_id'', JStr ''2''),
                                                (''type'', JStr ''IssuesEvent'')],
                                          JObj [(''event_id'', JStr ''1''),
                                                (''type'', JStr ''PushEvent'')]]\<rparr>],
      fresh = 8\<rparr>"


text \<open>
  The answers of the platform in the scenario: a user, one repository, its languages, and
  two activities, of which the previous snapshot already holds the second.
\<close>

definition scenario_github :: github where
  "scenario_github =
     \<lparr>getGithubUser = Inr (JObj [(''login'', JStr ''1ambda''),
                                      (''created_at'', JStr ''2014-05-01T00:00:00Z''),
                                      (''following'', JNum 3), (''followers'', JNum 5),
                                      (''public_repos'', JNum 2), (''public_gists'', JNum 0)]),
           getUserRepositories = Inr (JArr [JObj [(''name'', JStr ''oh-my-github''),
                                                   (''watchers_count'', JNum 4),
                                                   (''stargazers_count'', JNum 4),
                                                   (''forks_count'', JNum 1)]]),
           getUserLanguages = (\<lambda>ignored. Inr (JArr [JObj [(''repository_name'', JStr ''oh-my-github''),
                                                  (''languages'', JArr [JObj [(''name'', JStr ''TypeScript''),
                                                                              (''line'', JNum 1200)]])]])),
           getUserActivities = Inr [JObj [(''event_id'', JStr ''2''), (''type'', JStr ''IssuesEvent'')],
                                    JObj [(''event_id'', JStr ''1''), (''type'', JStr ''PushEvent'')]]\<rparr>"


section \<open>Decoding: the version gate and the defaults\<close>

lemma OnDeserialized_Inr:
  assumes "OnDeserialized now inst json = Inr m"
  shows "(rawField json ''schema_version'' = JNull
            \<or> rawField json ''schema_version'' = JNum PROFILE_SCHEMA_VERSION)
         \<and> m = inst\<lparr>schema_version := JNum PROFILE_SCHEMA_VERSION,
                  schema_created_at :=
                    (if isEmpty (rawField json ''schema_created_at'') then JStr now
                     else rawField json ''schema_created_at''),
                  schema_collected_ats :=
                    (if isEmpty (rawField json ''schema_collected_ats'') then JArr [JStr now]
                     else rawField json ''schema_collected_ats'')\<rparr>"
  using assms
  by (auto simp: OnDeserialized_def reportMessageAndExit_def Let_def rawField_def
           split: sum.splits if_splits)

lemma getProp_other_key: "getProp json k = Inr v \<Longrightarrow> \<exists>w. getProp json k' = Inr w"
  by (cases json) auto

lemma OnDeserialized_accepts:
  assumes "getProp json ''schema_version'' = Inr v"
    and "v = JNull \<or> v = JNum PROFILE_SCHEMA_VERSION"
  shows "\<exists>m. OnDeserialized now inst json = Inr m"
proof -
  obtain c where c: "getProp json ''schema_created_at'' = Inr c"
    using getProp_other_key [OF assms(1)] by blast
  obtain d where d: "getProp json ''schema_collected_ats'' = Inr d"
    using getProp_other_key [OF assms(1)] by blast
  from assms c d show ?thesis
    by (auto simp: OnDeserialized_def Let_def)
qed

text \<open>
  The gate of the hook: a raw \<open>schema_version\<close> that is neither \<^verbatim>\<open>null\<close> nor the number
  \<open>PROFILE_SCHEMA_VERSION\<close> ends the decoding with the version error. That covers every
  value that is present, not empty and different from the supported version.
\<close>

lemma OnDeserialized_rejects:
  assumes "getProp json ''schema_version'' = Inr v"
    and "v \<noteq> JNull" and "v \<noteq> JNum PROFILE_SCHEMA_VERSION"
  shows "OnDeserialized now inst json = Inl (SchemaVersionMismatch v)"
  using assms by (simp add: OnDeserialized_def reportMessageAndExit_def)

text \<open>
  C2. The claim has two halves. A document with \<open>schema_version = 2\<close> is rejected with
  the version error, as the claim says. A document without \<open>schema_version\<close> is rejected
  as well, where the claim says that decoding succeeds with the supported version: the
  property reads as \<^verbatim>\<open>undefined\<close>, and \<^verbatim>\<open>null !== undefined\<close> holds, so the gate is
  taken before the default of the next line is reached. Only an explicit \<^verbatim>\<open>null\<close> gets
  the default.
\<close>

theorem absent_schema_version_is_rejected:
  "OnDeserialized now inst (JObj [(''schema_version'', JNum 2)])
     = Inl (SchemaVersionMismatch (JNum 2))
   \<and> OnDeserialized now inst (JObj [(''agent'', JStr ''oh-my-github'')])
     = Inl (SchemaVersionMismatch JUndefined)
   \<and> OnDeserialized now inst (JObj [(''agent'', JStr ''oh-my-github''), (''schema_version'', JNull)])
     = Inr (inst\<lparr>schema_version := JNum PROFILE_SCHEMA_VERSION,
                 schema_created_at := JStr now,
                 schema_collected_ats := JArr [JStr now]\<rparr>)"
  by (simp add: OnDeserialized_def reportMessageAndExit_def PROFILE_SCHEMA_VERSION_def)

text \<open>
  C4, as stated, fails: a \<open>schema_version\<close> that is present and empty, here the empty
  string, is not filled with the supported version; the gate rejects every value but
  \<^verbatim>\<open>null\<close> and the supported version.
\<close>

theorem empty_schema_version_is_not_defaulted:
  "OnDeserialized ''2016-03-01T00:00:00.000Z'' (MetaField_init ''2016-03-01T00:00:00.000Z'')
     (JObj [(''agent'', JStr ''oh-my-github''), (''schema_version'', JStr [])])
   = Inl (SchemaVersionMismatch (JStr []))"
  by (simp add: OnDeserialized_def reportMessageAndExit_def PROFILE_SCHEMA_VERSION_def)

text \<open>
  C4, amended. Whenever the raw \<open>schema_version\<close> is \<^verbatim>\<open>null\<close> or the supported
  version, decoding returns a MetaField; and decoding never returns a partially populated
  one: in every MetaField that it returns, \<open>schema_version\<close> is the supported version,
  a \<open>schema_created_at\<close> that was absent or empty in the raw document is the current
  timestamp, a \<open>schema_collected_ats\<close> that was absent or empty is the list of that one
  timestamp, a field that was not empty is kept, and none of the three is \<^verbatim>\<open>null\<close> or
  \<^verbatim>\<open>undefined\<close>.
\<close>

theorem decoded_MetaField_is_populated:
  "(getProp json ''schema_version'' = Inr JNull
      \<or> getProp json ''schema_version'' = Inr (JNum PROFILE_SCHEMA_VERSION)
    \<longrightarrow> (\<exists>m. OnDeserialized now inst json = Inr m))
   \<and> (\<forall>m. OnDeserialized now inst json = Inr m \<longrightarrow>
        schema_version m = JNum PROFILE_SCHEMA_VERSION
      \<and> schema_created_at m =
          (if isEmpty (rawField json ''schema_created_at'') then JStr now
           else rawField json ''schema_created_at'')
      \<and> schema_collected_ats m =
          (if isEmpty (rawField json ''schema_collected_ats'') then JArr [JStr now]
           else rawField json ''schema_collected_ats'')
      \<and> schema_version m \<notin> {JNull, JUndefined}
      \<and> schema_created_at m \<notin> {JNull, JUndefined}
      \<and> schema_collected_ats m \<notin> {JNull, JUndefined})"
proof (intro conjI impI allI)
  assume "getProp json ''schema_version'' = Inr JNull
            \<or> getProp json ''schema_version'' = Inr (JNum PROFILE_SCHEMA_VERSION)"
  then show "\<exists>m. OnDeserialized now inst json = Inr m"
    using OnDeserialized_accepts by blast
next
  fix m assume m: "OnDeserialized now inst json = Inr m"
  note r = OnDeserialized_Inr [OF m]
  show "schema_version m = JNum PROFILE_SCHEMA_VERSION"
    using r by simp
  show "schema_created_at m =
          (if isEmpty (rawField json ''schema_created_at'') then JStr now
           else rawField json ''schema_created_at'')"
    using r by simp
  show "schema_collected_ats m =
          (if isEmpty (rawField json ''schema_collected_ats'') then JArr [JStr now]
           else rawField json ''schema_collected_ats'')"
    using r by simp
  show "schema_version m \<notin> {JNull, JUndefined}"
    using r by simp
  show "schema_created_at m \<notin> {JNull, JUndefined}"
    using r by auto
  show "schema_collected_ats m \<notin> {JNull, JUndefined}"
    using r by auto
qed

theorem decoded_MetaField_is_populated_witness:
  "OnDeserialized ''2016-03-01T00:00:00.000Z'' (MetaField_init ''2016-03-01T00:00:00.000Z'')
     (JObj [(''agent'', JStr ''oh-my-github''), (''schema_version'', JNull),
            (''schema_created_at'', JStr [])])
   = Inr ((MetaField_init ''2016-03-01T00:00:00.000Z'')
            \<lparr>schema_version := JNum 1,
             schema_created_at := JStr ''2016-03-01T00:00:00.000Z'',
             schema_collected_ats := JArr [JStr ''2016-03-01T00:00:00.000Z'']\<rparr>)"
proof -
  let ?now = "''2016-03-01T00:00:00.000Z''"
  let ?json = "JObj [(''agent'', JStr ''oh-my-github''), (''schema_version'', JNull),
                     (''schema_created_at'', JStr [])]"
  have v: "getProp ?json ''schema_version'' = Inr JNull"
    by simp
  from decoded_MetaField_is_populated [of ?json ?now "MetaField_init ?now"] v
  obtain m where m: "OnDeserialized ?now (MetaField_init ?now) ?json = Inr m"
    and f: "schema_version m = JNum PROFILE_SCHEMA_VERSION"
           "schema_created_at m = JStr ?now" "schema_collected_ats m = JArr [JStr ?now]"
    by (auto simp: rawField_def)
  have "m = (MetaField_init ?now)\<lparr>schema_version := schema_version m,
              schema_created_at := schema_created_at m,
              schema_collected_ats := schema_collected_ats m\<rparr>"
    using OnDeserialized_Inr [OF m] by simp
  with m f show ?thesis
    by (simp add: PROFILE_SCHEMA_VERSION_def)
qed

text \<open>
  C10. Every MetaField that decoding returns (no version error, no other failure) has
  \<open>schema_version\<close> equal to the supported version \<open>PROFILE_SCHEMA_VERSION\<close>, whatever the
  instance and the raw document were.
\<close>

theorem decoded_version_is_supported:
  "OnDeserialized now inst json = Inr m \<Longrightarrow> schema_version m = JNum PROFILE_SCHEMA_VERSION"
  by (drule OnDeserialized_Inr) simp

theorem decoded_version_is_supported_witness:
  "OnDeserialized ''2016-03-01T00:00:00.000Z'' (MetaField_init ''2016-03-01T00:00:00.000Z'')
     (JObj [(''schema_version'', JNum 1),
            (''schema_created_at'', JStr ''2016-01-01T00:00:00.000Z''),
            (''schema_collected_ats'', JArr [JStr ''2016-01-01T00:00:00.000Z''])])
   = Inr ((MetaField_init ''2016-03-01T00:00:00.000Z'')
            \<lparr>schema_created_at := JStr ''2016-01-01T00:00:00.000Z'',
             schema_collected_ats := JArr [JStr ''2016-01-01T00:00:00.000Z'']\<rparr>)
   \<and> schema_version ((MetaField_init ''2016-03-01T00:00:00.000Z'')
            \<lparr>schema_created_at := JStr ''2016-01-01T00:00:00.000Z'',
             schema_collected_ats := JArr [JStr ''2016-01-01T00:00:00.000Z'']\<rparr>)
     = JNum PROFILE_SCHEMA_VERSION"
proof -
  let ?now = "''2016-03-01T00:00:00.000Z''"
  let ?json = "JObj [(''schema_version'', JNum 1),
            (''schema_created_at'', JStr ''2016-01-01T00:00:00.000Z''),
            (''schema_collected_ats'', JArr [JStr ''2016-01-01T00:00:00.000Z''])]"
  let ?m = "(MetaField_init ?now)
            \<lparr>schema_created_at := JStr ''2016-01-01T00:00:00.000Z'',
             schema_collected_ats := JArr [JStr ''2016-01-01T00:00:00.000Z'']\<rparr>"
  have h: "OnDeserialized ?now (MetaField_init ?now) ?json = Inr ?m"
    by (simp add: OnDeserialized_def MetaField_init_def PROFILE_SCHEMA_VERSION_def)
  from h decoded_version_is_supported [OF h] show ?thesis
    by simp
qed


section \<open>Merging the activities: first occurrences\<close>

lemma getProp_event_id: "\<not> isEmpty a \<Longrightarrow> getProp a ''event_id'' = Inr (eventIdOf a)"
  by (cases a) (auto simp: eventIdOf_def rawField_def)

lemma uniqLoop_keepFirst:
  "\<forall>a\<in>set xs. \<not> isEmpty a \<Longrightarrow> uniqLoop xs seen acc = Inr (acc @ keepFirst seen xs)"
  by (induction xs arbitrary: seen acc) (auto simp: getProp_event_id)

lemma keepFirst_index:
  "keepFirst seen xs =
     map (\<lambda>i. xs ! i)
       (filter (\<lambda>i. eventIdOf (xs ! i) \<notin> seen
                    \<and> (\<forall>j<i. eventIdOf (xs ! j) \<noteq> eventIdOf (xs ! i))) [0..<length xs])"
proof (induction xs arbitrary: seen)
  case Nil
  show ?case by simp
next
  case (Cons a as)
  have upt: "[0..<length (a # as)] = 0 # map Suc [0..<length as]"
    by (simp add: upt_conv_Cons map_Suc_upt del: upt_Suc)
  show ?case
  proof (cases "eventIdOf a \<in> seen")
    case True
    have "keepFirst seen (a # as) = keepFirst seen as"
      using True by simp
    also have "\<dots> = map (\<lambda>i. as ! i)
       (filter (\<lambda>i. eventIdOf (as ! i) \<notin> seen
                    \<and> (\<forall>j<i. eventIdOf (as ! j) \<noteq> eventIdOf (as ! i))) [0..<length as])"
      by (rule Cons.IH)
    also have "\<dots> = map (\<lambda>i. (a # as) ! i)
       (filter (\<lambda>i. eventIdOf ((a # as) ! i) \<notin> seen
                    \<and> (\<forall>j<i. eventIdOf ((a # as) ! j) \<noteq> eventIdOf ((a # as) ! i)))
          [0..<length (a # as)])"
    proof -
      have "\<And>i. (eventIdOf (as ! i) \<notin> seen \<and> eventIdOf a \<noteq> eventIdOf (as ! i)
                  \<and> (\<forall>j<i. eventIdOf (as ! j) \<noteq> eventIdOf (as ! i)))
              = (eventIdOf (as ! i) \<notin> seen
                  \<and> (\<forall>j<i. eventIdOf (as ! j) \<noteq> eventIdOf (as ! i)))"
        using True by auto
      then show ?thesis
        unfolding upt using True
        by (simp add: filter_map comp_def All_less_Suc2)
    qed
    finally show ?thesis .
  next
    case False
    have "keepFirst seen (a # as) = a # keepFirst (insert (eventIdOf a) seen) as"
      using False by simp
    also have "keepFirst (insert (eventIdOf a) seen) as = map (\<lambda>i. as ! i)
       (filter (\<lambda>i. eventIdOf (as ! i) \<notin> insert (eventIdOf a) seen
                    \<and> (\<forall>j<i. eventIdOf (as ! j) \<noteq> eventIdOf (as ! i))) [0..<length as])"
      by (rule Cons.IH)
    also have "a # \<dots> = map (\<lambda>i. (a # as) ! i)
       (filter (\<lambda>i. eventIdOf ((a # as) ! i) \<notin> seen
                    \<and> (\<forall>j<i. eventIdOf ((a # as) ! j) \<noteq> eventIdOf ((a # as) ! i)))
          [0..<length (a # as)])"
    proof -
      have "\<And>i. (eventIdOf (as ! i) \<notin> seen \<and> eventIdOf a \<noteq> eventIdOf (as ! i)
                  \<and> (\<forall>j<i. eventIdOf (as ! j) \<noteq> eventIdOf (as ! i)))
              = (eventIdOf (as ! i) \<notin> insert (eventIdOf a) seen
                  \<and> (\<forall>j<i. eventIdOf (as ! j) \<noteq> eventIdOf (as ! i)))"
        by auto
      then show ?thesis
        unfolding upt using False
        by (simp add: filter_map comp_def All_less_Suc2 del: insert_iff)
    qed
    finally show ?thesis .
  qed
qed

lemma keepFirst_firstOccurrences: "keepFirst {} xs = firstOccurrences xs"
  by (simp add: keepFirst_index [of "{}"] firstOccurrences_def)

lemma find_keepFirst:
  "find (\<lambda>a. eventIdOf a = k) (keepFirst seen xs)
     = (if k \<in> seen then None else find (\<lambda>a. eventIdOf a = k) xs)"
  by (induction xs arbitrary: seen) auto

lemma ids_keepFirst: "eventIdOf ` set (keepFirst seen xs) = eventIdOf ` set xs - seen"
  by (induction xs arbitrary: seen) auto

lemma distinct_keepFirst: "distinct (map eventIdOf (keepFirst seen xs))"
  by (induction xs arbitrary: seen) (auto simp: ids_keepFirst)

lemma set_keepFirst: "set (keepFirst seen xs) \<subseteq> set xs"
  by (induction xs arbitrary: seen) auto

lemma keepFirst_append:
  "keepFirst seen (xs @ ys) = keepFirst seen xs @ keepFirst (seen \<union> eventIdOf ` set xs) ys"
  by (induction xs arbitrary: seen) (auto simp: insert_absorb)

lemma keepFirst_seen: "eventIdOf ` set xs \<subseteq> seen \<Longrightarrow> keepFirst seen xs = []"
  by (induction xs arbitrary: seen) auto

lemma keepFirst_distinct:
  "distinct (map eventIdOf xs) \<Longrightarrow> eventIdOf ` set xs \<inter> seen = {} \<Longrightarrow> keepFirst seen xs = xs"
  by (induction xs arbitrary: seen) auto


lemma mergeActivities_keepFirst:
  "mergeActivities A B = Inr (keepFirst {} (allActs A B))"
  unfolding mergeActivities_def
  by (subst uniqLoop_keepFirst) (auto simp: allActs_def)

lemma find_append_Some: "find P xs \<noteq> None \<Longrightarrow> find P (xs @ ys) = find P xs"
  by (induction xs) auto

lemma allActs_events: "\<forall>a\<in>set (A @ B). isEvent a \<Longrightarrow> allActs A B = A @ B"
  unfolding allActs_def isEvent_def
  by (metis (mono_tags, lifting) filter_True)

text \<open>
  C1. For every fresh sequence \<open>A\<close> and previous sequence \<open>B\<close> of events, the merged
  activities are \<open>A\<close> followed by \<open>B\<close> with only the first occurrence of each
  \<open>event_id\<close> kept, in the order of first occurrence; no id occurs twice in the result,
  and for an id present in both \<open>A\<close> and \<open>B\<close> the entry of the result with that id is
  the copy of \<open>A\<close>.
\<close>

theorem merge_keeps_first_occurrences:
  assumes "\<forall>a\<in>set (A @ B). isEvent a"
  shows "mergeActivities A B = Inr (firstOccurrences (A @ B))
         \<and> distinct (map eventIdOf (firstOccurrences (A @ B)))
         \<and> (\<forall>k \<in> eventIdOf ` set A \<inter> eventIdOf ` set B.
               find (\<lambda>a. eventIdOf a = k) (firstOccurrences (A @ B))
                 = find (\<lambda>a. eventIdOf a = k) A)"
proof (intro conjI ballI)
  show "mergeActivities A B = Inr (firstOccurrences (A @ B))"
    using assms
    by (simp only: mergeActivities_keepFirst allActs_events keepFirst_firstOccurrences)
  show "distinct (map eventIdOf (firstOccurrences (A @ B)))"
    using distinct_keepFirst [of "{}" "A @ B"] by (simp only: keepFirst_firstOccurrences)
next
  fix k assume "k \<in> eventIdOf ` set A \<inter> eventIdOf ` set B"
  then obtain a where "a \<in> set A" "eventIdOf a = k"
    by auto
  then have "find (\<lambda>a. eventIdOf a = k) A \<noteq> None"
    by (auto simp: find_None_iff)
  then have "find (\<lambda>a. eventIdOf a = k) (A @ B) = find (\<lambda>a. eventIdOf a = k) A"
    by (rule find_append_Some)
  then show "find (\<lambda>a. eventIdOf a = k) (firstOccurrences (A @ B))
               = find (\<lambda>a. eventIdOf a = k) A"
    using find_keepFirst [of k "{}" "A @ B"] by (simp add: keepFirst_firstOccurrences)
qed

theorem merge_keeps_first_occurrences_witness:
  "mergeActivities
     [JObj [(''event_id'', JStr ''2''), (''type'', JStr ''IssuesEvent'')],
      JObj [(''event_id'', JStr ''1''), (''type'', JStr ''PushEvent''), (''public'', JBool True)]]
     [JObj [(''event_id'', JStr ''1''), (''type'', JStr ''PushEvent'')]]
   = Inr [JObj [(''event_id'', JStr ''2''), (''type'', JStr ''IssuesEvent'')],
          JObj [(''event_id'', JStr ''1''), (''type'', JStr ''PushEvent''), (''public'', JBool True)]]"
proof -
  let ?A = "[JObj [(''event_id'', JStr ''2''), (''type'', JStr ''IssuesEvent'')],
      JObj [(''event_id'', JStr ''1''), (''type'', JStr ''PushEvent''), (''public'', JBool True)]]"
  let ?B = "[JObj [(''event_id'', JStr ''1''), (''type'', JStr ''PushEvent'')]]"
  have ev: "\<forall>a\<in>set (?A @ ?B). isEvent a"
    by (simp add: isEvent_def eventIdOf_def rawField_def)
  have "firstOccurrences (?A @ ?B) = ?A"
    by (simp add: firstOccurrences_def eventIdOf_def rawField_def upt_rec [of 0] upt_rec [of 1]
          upt_rec [of 2] All_less_Suc2 numeral_2_eq_2 numeral_3_eq_3)
  with merge_keeps_first_occurrences [OF ev] show ?thesis
    by simp
qed

text \<open>
  C3, as stated, fails: an entry that has properties but no \<open>event_id\<close>, and one whose
  \<open>event_id\<close> is the empty string, both appear in the merged activities. The filter of
  the code tests the entry with \<^verbatim>\<open>_.isEmpty\<close>, not its id.
\<close>

theorem entries_without_event_id_are_kept:
  "getProp (JObj [(''type'', JStr ''PushEvent'')]) ''event_id'' = Inr JUndefined
   \<and> getProp (JObj [(''event_id'', JStr []), (''type'', JStr ''IssuesEvent'')]) ''event_id''
       = Inr (JStr [])
   \<and> mergeActivities
       [JObj [(''type'', JStr ''PushEvent'')],
        JObj [(''event_id'', JStr []), (''type'', JStr ''IssuesEvent'')]]
       [JObj [(''event_id'', JStr ''1''), (''type'', JStr ''PushEvent'')]]
     = Inr [JObj [(''type'', JStr ''PushEvent'')],
            JObj [(''event_id'', JStr []), (''type'', JStr ''IssuesEvent'')],
            JObj [(''event_id'', JStr ''1''), (''type'', JStr ''PushEvent'')]]"
  by (simp add: mergeActivities_def allActs_def)

text \<open>
  C3, amended. For every pair of input sequences the merge returns, and every entry that is
  itself empty (\<^verbatim>\<open>null\<close>, \<^verbatim>\<open>undefined\<close>, an object without properties) is dropped:
  the result is the fresh sequence followed by the previous one, without the empty
  entries, with the first occurrence of each id kept. So it holds entries of the input
  that are not empty, no id twice, and for every entry of the input that is not empty, a
  missing or empty id included, the entry of the result with that id is the first entry
  of the input that is not empty and has that id.
\<close>

theorem merge_drops_empty_entries:
  assumes "\<forall>a\<in>set (A @ B). primitive (eventIdOf a)"
  shows "\<exists>out. mergeActivities A B = Inr out
           \<and> out = firstOccurrences (filter (\<lambda>a. \<not> isEmpty a) (A @ B))
           \<and> (\<forall>a\<in>set out. \<not> isEmpty a)
           \<and> set out \<subseteq> set (A @ B)
           \<and> distinct (map eventIdOf out)
           \<and> (\<forall>a\<in>set (A @ B). \<not> isEmpty a \<longrightarrow>
                 find (\<lambda>x. eventIdOf x = eventIdOf a) out
                   = find (\<lambda>x. eventIdOf x = eventIdOf a) (filter (\<lambda>a. \<not> isEmpty a) (A @ B))
               \<and> find (\<lambda>x. eventIdOf x = eventIdOf a) out \<noteq> None)"
proof -
  let ?kept = "filter (\<lambda>a. \<not> isEmpty a) (A @ B)"
  let ?out = "keepFirst {} ?kept"
  have kept: "allActs A B = ?kept"
    by (simp add: allActs_def)
  have sub: "set ?out \<subseteq> set ?kept"
    by (rule set_keepFirst)
  have "mergeActivities A B = Inr ?out"
    by (simp only: mergeActivities_keepFirst kept)
  moreover have "?out = firstOccurrences ?kept"
    by (rule keepFirst_firstOccurrences)
  moreover have "\<forall>a\<in>set ?out. \<not> isEmpty a"
    using sub by auto
  moreover have "set ?out \<subseteq> set (A @ B)"
    using sub by auto
  moreover have "distinct (map eventIdOf ?out)"
    by (rule distinct_keepFirst)
  moreover have "\<forall>a\<in>set (A @ B). \<not> isEmpty a \<longrightarrow>
                 find (\<lambda>x. eventIdOf x = eventIdOf a) ?out
                   = find (\<lambda>x. eventIdOf x = eventIdOf a) ?kept
               \<and> find (\<lambda>x. eventIdOf x = eventIdOf a) ?out \<noteq> None"
  proof (intro ballI impI)
    fix a assume "a \<in> set (A @ B)" and "\<not> isEmpty a"
    then have "a \<in> set ?kept"
      by simp
    then have "find (\<lambda>x. eventIdOf x = eventIdOf a) ?kept \<noteq> None"
      by (auto simp: find_None_iff simp del: filter_append)
    then show "find (\<lambda>x. eventIdOf x = eventIdOf a) ?out
                   = find (\<lambda>x. eventIdOf x = eventIdOf a) ?kept
               \<and> find (\<lambda>x. eventIdOf x = eventIdOf a) ?out \<noteq> None"
      by (simp only: find_keepFirst) simp
  qed
  ultimately show ?thesis
    by blast
qed

theorem merge_drops_empty_entries_witness:
  "mergeActivities
     [JNull, JObj [], JObj [(''type'', JStr ''PushEvent'')]]
     [JObj [(''type'', JStr ''ForkEvent'')], JObj [(''event_id'', JStr ''1'')]]
   = Inr [JObj [(''type'', JStr ''PushEvent'')], JObj [(''event_id'', JStr ''1'')]]
   \<and> find (\<lambda>x. eventIdOf x = eventIdOf (JObj [(''type'', JStr ''ForkEvent'')]))
       [JObj [(''type'', JStr ''PushEvent'')], JObj [(''event_id'', JStr ''1'')]]
     = Some (JObj [(''type'', JStr ''PushEvent'')])"
proof -
  let ?A = "[JNull, JObj [], JObj [(''type'', JStr ''PushEvent'')]]"
  let ?B = "[JObj [(''type'', JStr ''ForkEvent'')], JObj [(''event_id'', JStr ''1'')]]"
  have "\<forall>a\<in>set (?A @ ?B). primitive (eventIdOf a)"
    by (simp add: eventIdOf_def rawField_def)
  from merge_drops_empty_entries [OF this]
  obtain out where out: "mergeActivities ?A ?B = Inr out"
    and first: "\<forall>a\<in>set (?A @ ?B). \<not> isEmpty a \<longrightarrow>
                 find (\<lambda>x. eventIdOf x = eventIdOf a) out
                   = find (\<lambda>x. eventIdOf x = eventIdOf a) (filter (\<lambda>a. \<not> isEmpty a) (?A @ ?B))
               \<and> find (\<lambda>x. eventIdOf x = eventIdOf a) out \<noteq> None"
    by blast
  have eq: "out = [JObj [(''type'', JStr ''PushEvent'')], JObj [(''event_id'', JStr ''1'')]]"
    using out by (simp add: mergeActivities_def allActs_def)
  have "find (\<lambda>x. eventIdOf x = eventIdOf (JObj [(''type'', JStr ''ForkEvent'')])) out
          = Some (JObj [(''type'', JStr ''PushEvent'')])"
    using first by (simp add: eventIdOf_def rawField_def)
  with out eq show ?thesis
    by simp
qed


section \<open>The store: what \<^verbatim>\<open>updateMeta\<close> does\<close>

lemma wf_arrayD: "wf_store s \<Longrightarrow> arrays s a = Some xs \<Longrightarrow> a < fresh s"
  by (auto simp: wf_store_def)

lemma wf_metaD:
  "wf_store s \<Longrightarrow> metas s a = Some m \<Longrightarrow>
     a < fresh s \<and> (\<exists>xs. arrays s (ignored_repositories m) = Some xs)
   \<and> (\<exists>cs. arrays s (schema_collected_ats m) = Some cs)
   \<and> ignored_repositories m \<noteq> schema_collected_ats m"
  unfolding wf_store_def by (metis domD)

lemma wf_profileD:
  "wf_store s \<Longrightarrow> profiles s a = Some p \<Longrightarrow> a < fresh s \<and> (\<exists>m. metas s (meta p) = Some m)"
  unfolding wf_store_def by (metis domD)

lemma wf_fresh:
  assumes "wf_store s" and "fresh s \<le> a"
  shows "arrays s a = None" and "metas s a = None" and "profiles s a = None"
proof -
  have "\<not> a < fresh s"
    using assms(2) by simp
  then show "arrays s a = None" and "metas s a = None" and "profiles s a = None"
    using assms(1) unfolding wf_store_def by (metis not_Some_eq)+
qed

lemma updateMeta_Deep:
  assumes wf: "wf_store s"
    and p: "profiles s c = Some p"
    and cm: "metas s (meta p) = Some cm"
    and pm: "metas s prev = Some pm"
    and xs: "arrays s (ignored_repositories cm) = Some xs"
    and ys: "arrays s (ignored_repositories pm) = Some ys"
    and cs: "arrays s (schema_collected_ats pm) = Some cs"
  shows "\<exists>s'. updateMeta Deep now c prev s = Some (c, s')
           \<and> arrays s' = (arrays s)(fresh s \<mapsto> ys, Suc (fresh s) \<mapsto> cs @ [now],
                                      fresh s + 3 \<mapsto> union_lodash xs ys)
           \<and> metas s' = (metas s)(fresh s + 2 \<mapsto>
                                  pm\<lparr>schema_collected_ats := Suc (fresh s),
                                     ignored_repositories := fresh s + 3\<rparr>)
           \<and> profiles s' = (profiles s)(c \<mapsto> p\<lparr>meta := fresh s + 2\<rparr>)
           \<and> fresh s' = fresh s + 4"
proof -
  have lt: "meta p < fresh s" "prev < fresh s" "ignored_repositories cm < fresh s"
    "ignored_repositories pm < fresh s" "schema_collected_ats pm < fresh s"
    using wf_metaD [OF wf cm] wf_metaD [OF wf pm] wf_arrayD [OF wf xs] wf_arrayD [OF wf ys]
      wf_arrayD [OF wf cs] by auto
  then have ne: "meta p \<noteq> fresh s + 2" "prev \<noteq> fresh s + 2"
    "ignored_repositories cm \<noteq> fresh s" "ignored_repositories cm \<noteq> Suc (fresh s)"
    "ignored_repositories pm \<noteq> fresh s" "ignored_repositories pm \<noteq> Suc (fresh s)"
    by auto
  show ?thesis
    using p cm pm xs ys cs ne
    by (simp add: updateMeta_def newArray_def newObject_def push_def Let_def
          numeral_eq_Suc fun_upd_twist)
qed

lemma updateMeta_Shallow:
  assumes wf: "wf_store s"
    and p: "profiles s c = Some p"
    and cm: "metas s (meta p) = Some cm"
    and pm: "metas s prev = Some pm"
    and xs: "arrays s (ignored_repositories cm) = Some xs"
    and ys: "arrays s (ignored_repositories pm) = Some ys"
    and cs: "arrays s (schema_collected_ats pm) = Some cs"
  shows "\<exists>s'. updateMeta Shallow now c prev s = Some (c, s')
           \<and> arrays s' = (arrays s)(schema_collected_ats pm \<mapsto> cs @ [now],
                                      Suc (fresh s) \<mapsto>
                                        union_lodash
                                          (if ignored_repositories cm = schema_collected_ats pm
                                           then cs @ [now] else xs) ys)
           \<and> metas s' = (metas s)(fresh s \<mapsto> pm\<lparr>ignored_repositories := Suc (fresh s)\<rparr>)
           \<and> profiles s' = (profiles s)(c \<mapsto> p\<lparr>meta := fresh s\<rparr>)
           \<and> fresh s' = fresh s + 2"
proof -
  have lt: "meta p < fresh s" "prev < fresh s" "ignored_repositories cm < fresh s"
    "ignored_repositories pm < fresh s" "schema_collected_ats pm < fresh s"
    using wf_metaD [OF wf cm] wf_metaD [OF wf pm] wf_arrayD [OF wf xs] wf_arrayD [OF wf ys]
      wf_arrayD [OF wf cs] by auto
  then have ne': "meta p \<noteq> fresh s" "prev \<noteq> fresh s"
    by auto
  have ne2: "ignored_repositories pm \<noteq> schema_collected_ats pm"
    using wf_metaD [OF wf pm] by simp
  show ?thesis
    using p cm pm xs ys cs ne' ne2
    by (simp add: updateMeta_def newArray_def newObject_def push_def Let_def)
qed


lemma updateMeta_result:
  assumes wf: "wf_store s"
    and p: "profiles s c = Some p"
    and cm: "metas s (meta p) = Some cm"
    and pm: "metas s prev = Some pm"
    and xs: "arrays s (ignored_repositories cm) = Some xs"
    and ys: "arrays s (ignored_repositories pm) = Some ys"
    and cs: "arrays s (schema_collected_ats pm) = Some cs"
  shows "\<exists>s' m' i' c'. updateMeta depth now c prev s = Some (c, s')
           \<and> profiles s' = (profiles s)(c \<mapsto> p\<lparr>meta := m'\<rparr>)
           \<and> metas s m' = None
           \<and> metas s' = (metas s)(m' \<mapsto> pm\<lparr>schema_collected_ats := c',
                                                 ignored_repositories := i'\<rparr>)
           \<and> arrays s' c' = Some (cs @ [now])
           \<and> arrays s i' = None
           \<and> arrays s' i' = Some (union_lodash
                                  (if depth = Shallow
                                      \<and> ignored_repositories cm = schema_collected_ats pm
                                   then cs @ [now] else xs) ys)
           \<and> (\<forall>a. a \<noteq> c' \<and> a \<in> dom (arrays s) \<longrightarrow> arrays s' a = arrays s a)
           \<and> (depth = Deep \<longrightarrow> arrays s c' = None)
           \<and> (depth = Shallow \<longrightarrow> c' = schema_collected_ats pm)
           \<and> fresh s \<le> fresh s'"
proof -
  have fr: "arrays s (fresh s) = None" "arrays s (Suc (fresh s)) = None"
    "arrays s (fresh s + 3) = None" "metas s (fresh s) = None" "metas s (fresh s + 2) = None"
    using wf_fresh [OF wf] by simp_all
  show ?thesis
  proof (cases depth)
    case Deep
    from updateMeta_Deep [OF wf p cm pm xs ys cs, of now]
    obtain s' where "updateMeta Deep now c prev s = Some (c, s')"
      "arrays s' = (arrays s)(fresh s \<mapsto> ys, Suc (fresh s) \<mapsto> cs @ [now],
                                      fresh s + 3 \<mapsto> union_lodash xs ys)"
      "metas s' = (metas s)(fresh s + 2 \<mapsto>
                                  pm\<lparr>schema_collected_ats := Suc (fresh s),
                                     ignored_repositories := fresh s + 3\<rparr>)"
      "profiles s' = (profiles s)(c \<mapsto> p\<lparr>meta := fresh s + 2\<rparr>)"
      "fresh s' = fresh s + 4"
      by blast
    with Deep fr show ?thesis
      by (intro exI [of _ s'] exI [of _ "fresh s + 2"] exI [of _ "fresh s + 3"]
            exI [of _ "Suc (fresh s)"]) auto
  next
    case Shallow
    from updateMeta_Shallow [OF wf p cm pm xs ys cs, of now]
    obtain s' where "updateMeta Shallow now c prev s = Some (c, s')"
      "arrays s' = (arrays s)(schema_collected_ats pm \<mapsto> cs @ [now],
                                      Suc (fresh s) \<mapsto>
                                        union_lodash
                                          (if ignored_repositories cm = schema_collected_ats pm
                                           then cs @ [now] else xs) ys)"
      "metas s' = (metas s)(fresh s \<mapsto> pm\<lparr>ignored_repositories := Suc (fresh s)\<rparr>)"
      "profiles s' = (profiles s)(c \<mapsto> p\<lparr>meta := fresh s\<rparr>)"
      "fresh s' = fresh s + 2"
      by blast
    moreover have "schema_collected_ats pm \<noteq> Suc (fresh s)"
      using cs fr by auto
    ultimately show ?thesis
      using Shallow fr
      by (intro exI [of _ s'] exI [of _ "fresh s"] exI [of _ "Suc (fresh s)"]
            exI [of _ "schema_collected_ats pm"]) auto
  qed
qed


lemma updateMeta_wf:
  assumes wf: "wf_store s"
    and p: "profiles s c = Some p"
    and pm: "metas s prev = Some pm"
    and r: "updateMeta depth now c prev s = Some (c, s')"
  shows "wf_store s'"
proof -
  obtain cm where cm: "metas s (meta p) = Some cm"
    using wf_profileD [OF wf p] by blast
  obtain xs where xs: "arrays s (ignored_repositories cm) = Some xs"
    using wf_metaD [OF wf cm] by blast
  obtain ys cs where ys: "arrays s (ignored_repositories pm) = Some ys"
    and cs: "arrays s (schema_collected_ats pm) = Some cs"
    using wf_metaD [OF wf pm] by blast
  have lt: "schema_collected_ats pm < fresh s"
    using wf_arrayD [OF wf cs] .
  have ltc: "c < fresh s"
    using wf_profileD [OF wf p] by simp
  show ?thesis
  proof (cases depth)
    case Deep
    from updateMeta_Deep [OF wf p cm pm xs ys cs, of now] r Deep
    have s': "arrays s' = (arrays s)(fresh s \<mapsto> ys, Suc (fresh s) \<mapsto> cs @ [now],
                                      fresh s + 3 \<mapsto> union_lodash xs ys)"
      "metas s' = (metas s)(fresh s + 2 \<mapsto>
                                  pm\<lparr>schema_collected_ats := Suc (fresh s),
                                     ignored_repositories := fresh s + 3\<rparr>)"
      "profiles s' = (profiles s)(c \<mapsto> p\<lparr>meta := fresh s + 2\<rparr>)"
      "fresh s' = fresh s + 4"
      by auto
    show ?thesis
      using wf ltc unfolding wf_store_def s'
      by (auto simp: less_Suc_eq dom_def split: if_splits intro: trans_less_add1)
  next
    case Shallow
    from updateMeta_Shallow [OF wf p cm pm xs ys cs, of now] r Shallow
    have s': "arrays s' = (arrays s)(schema_collected_ats pm \<mapsto> cs @ [now],
                                      Suc (fresh s) \<mapsto>
                                        union_lodash
                                          (if ignored_repositories cm = schema_collected_ats pm
                                           then cs @ [now] else xs) ys)"
      "metas s' = (metas s)(fresh s \<mapsto> pm\<lparr>ignored_repositories := Suc (fresh s)\<rparr>)"
      "profiles s' = (profiles s)(c \<mapsto> p\<lparr>meta := fresh s\<rparr>)"
      "fresh s' = fresh s + 2"
      by auto
    show ?thesis
      using wf lt ltc cs pm unfolding wf_store_def s'
      by (auto simp: less_Suc_eq dom_def split: if_splits intro: trans_less_add1)
  qed
qed

lemma wf_scenario_store: "wf_store scenario_store"
  by (simp add: wf_store_def scenario_store_def dom_def)

lemma scenario_profile:
  "profiles scenario_store 7
     = Some \<lparr>meta = 6, user = JNull, languages = JArr [], repositories = JArr [],
             activities = [JObj [(''event_id'', JStr ''2''), (''type'', JStr ''IssuesEvent'')],
                           JObj [(''event_id'', JStr ''1''), (''type'', JStr ''PushEvent'')]]\<rparr>"
  by (simp add: scenario_store_def)

lemma scenario_prevMeta:
  "metas scenario_store 2
     = Some \<lparr>agent = JStr ''oh-my-github'', github_user = JStr ''1ambda'',
             github_repository = JStr ''oh-my-github'',
             ignored_repositories = 0, schema_version = JNum 1,
             schema_created_at = JStr ''2020-01-01T00:00:00Z'',
             schema_collected_ats = 1\<rparr>"
  by (simp add: scenario_store_def)

text \<open>
  C5. For every previous MetaField, \<^verbatim>\<open>updateMeta\<close> returns, and the
  \<open>schema_collected_ats\<close> of the MetaField of the resulting profile is the previous
  \<open>schema_collected_ats\<close> (as it was before the call) with one timestamp, \<open>CURRENT_DATE\<close>,
  appended at the end. This holds for either kind of copy.
\<close>

theorem updateMeta_appends_one_collected_at:
  assumes "wf_store s"
    and "profiles s currentProfile = Some p"
    and "metas s prevMeta = Some pm"
    and "arrays s (schema_collected_ats pm) = Some collected"
  shows "\<exists>s' p' m'. updateMeta depth now currentProfile prevMeta s = Some (currentProfile, s')
           \<and> profiles s' currentProfile = Some p'
           \<and> metas s' (meta p') = Some m'
           \<and> arrays s' (schema_collected_ats m') = Some (collected @ [now])"
proof -
  obtain cm where cm: "metas s (meta p) = Some cm"
    using wf_profileD [OF assms(1,2)] by blast
  obtain xs where xs: "arrays s (ignored_repositories cm) = Some xs"
    using wf_metaD [OF assms(1) cm] by blast
  obtain ys where ys: "arrays s (ignored_repositories pm) = Some ys"
    using wf_metaD [OF assms(1,3)] by blast
  from updateMeta_result [OF assms(1,2) cm assms(3) xs ys assms(4), of depth now]
  show ?thesis
    by (elim exE conjE) (simp del: fun_upd_apply, simp)
qed

theorem updateMeta_appends_one_collected_at_witness:
  "\<exists>s' p' m'. updateMeta Deep ''2020-03-01T00:00:00Z'' 7 2 scenario_store = Some (7, s')
      \<and> profiles s' 7 = Some p'
      \<and> metas s' (meta p') = Some m'
      \<and> arrays s' (schema_collected_ats m')
          = Some [''2020-01-01T00:00:00Z'', ''2020-03-01T00:00:00Z'']"
proof -
  have "arrays scenario_store 1 = Some [''2020-01-01T00:00:00Z'']"
    by (simp add: scenario_store_def)
  with updateMeta_appends_one_collected_at
    [OF wf_scenario_store scenario_profile scenario_prevMeta, of _ Deep "''2020-03-01T00:00:00Z''"]
  show ?thesis
    by simp
qed

text \<open>
  C8. For every current profile and previous MetaField, the \<open>schema_created_at\<close> of the
  MetaField of the resulting profile is that of the previous MetaField. This holds for
  either kind of copy.
\<close>

theorem updateMeta_keeps_created_at:
  assumes "wf_store s"
    and "profiles s currentProfile = Some p"
    and "metas s prevMeta = Some pm"
  shows "\<exists>s' p' m'. updateMeta depth now currentProfile prevMeta s = Some (currentProfile, s')
           \<and> profiles s' currentProfile = Some p'
           \<and> metas s' (meta p') = Some m'
           \<and> schema_created_at m' = schema_created_at pm"
proof -
  obtain cm where cm: "metas s (meta p) = Some cm"
    using wf_profileD [OF assms(1,2)] by blast
  obtain xs where xs: "arrays s (ignored_repositories cm) = Some xs"
    using wf_metaD [OF assms(1) cm] by blast
  obtain ys cs where ys: "arrays s (ignored_repositories pm) = Some ys"
    and cs: "arrays s (schema_collected_ats pm) = Some cs"
    using wf_metaD [OF assms(1,3)] by blast
  from updateMeta_result [OF assms(1,2) cm assms(3) xs ys cs, of depth now]
  show ?thesis
    by (elim exE conjE) (simp del: fun_upd_apply, simp)
qed

theorem updateMeta_keeps_created_at_witness:
  "\<exists>s' p' m'. updateMeta Deep ''2020-03-01T00:00:00Z'' 7 2 scenario_store = Some (7, s')
      \<and> profiles s' 7 = Some p'
      \<and> metas s' (meta p') = Some m'
      \<and> schema_created_at m' = JStr ''2020-01-01T00:00:00Z''"
  using updateMeta_keeps_created_at [OF wf_scenario_store scenario_profile scenario_prevMeta,
      of Deep "''2020-03-01T00:00:00Z''"]
  by simp





section \<open>The ignore list and the repeated merge\<close>

lemma union_lodash_foldl:
  "set (foldl (\<lambda>result v. if v \<in> set result then result else result @ [v]) acc zs)
     = set acc \<union> set zs"
  by (induction zs arbitrary: acc) auto

lemma set_union_lodash: "set (union_lodash xs ys) = set xs \<union> set ys"
  by (simp add: union_lodash_def union_lodash_foldl)

text \<open>What a new profile and its MetaField are in the store.\<close>

lemma new_Profile_result:
  "fst (new_Profile now s) = fresh s + 3"
  "arrays (snd (new_Profile now s)) = (arrays s)(fresh s \<mapsto> [], Suc (fresh s) \<mapsto> [now])"
  "metas (snd (new_Profile now s)) = (metas s)(fresh s + 2 \<mapsto>
           \<lparr>agent = JUndefined, github_user = JUndefined, github_repository = JUndefined,
            ignored_repositories = fresh s, schema_version = JNum PROFILE_SCHEMA_VERSION,
            schema_created_at = JStr now, schema_collected_ats = Suc (fresh s)\<rparr>)"
  "profiles (snd (new_Profile now s)) = (profiles s)(fresh s + 3 \<mapsto>
           \<lparr>meta = fresh s + 2, user = JUndefined, languages = JUndefined,
            repositories = JUndefined, activities = []\<rparr>)"
  "fresh (snd (new_Profile now s)) = fresh s + 4"
  by (simp_all add: new_Profile_def new_MetaField_def newArray_def newObject_def Let_def
        numeral_eq_Suc)

text \<open>
  \<^verbatim>\<open>createProfile\<close> in two steps: what can reject, then \<^verbatim>\<open>updateMeta\<close> on the new
  profile, which on a well-formed store returns.
\<close>

lemma createProfile_unfold:
  assumes wf: "wf_store s"
    and pp: "profiles s prevProf = Some pp"
    and pm: "metas s (meta pp) = Some pm"
    and req: "arrays s ignoredRepos = Some requested"
    and prev: "arrays s (ignored_repositories pm) = Some previous"
  shows "createProfile depth now api mergeByEventId prevProf ignoredRepos s =
     (case fetched api mergeByEventId (union_lodash requested previous) (activities pp) of
        Inl e \<Rightarrow> Some (Inl e)
      | Inr (githubUser, repos, langs, uniqActs) \<Rightarrow>
          (case updateMeta depth now (fresh s + 3) (meta pp)
                  ((snd (new_Profile now s))
                     \<lparr>metas := (metas s)(fresh s + 2 \<mapsto>
                        \<lparr>agent = JUndefined, github_user = JUndefined,
                         github_repository = JUndefined,
                         ignored_repositories = ignoredRepos,
                         schema_version = JNum PROFILE_SCHEMA_VERSION,
                         schema_created_at = JStr now,
                         schema_collected_ats = Suc (fresh s)\<rparr>),
                      profiles := (profiles s)(fresh s + 3 \<mapsto>
                        \<lparr>meta = fresh s + 2, user = githubUser, languages = langs,
                         repositories = repos, activities = uniqActs\<rparr>)\<rparr>) of
             None \<Rightarrow> None
           | Some (p, s4) \<Rightarrow> Some (Inr (fresh s + 3, s4))))"
proof -
  have lt: "prevProf < fresh s" "meta pp < fresh s" "ignoredRepos < fresh s"
    "ignored_repositories pm < fresh s"
    using wf_profileD [OF wf pp] wf_metaD [OF wf pm] wf_arrayD [OF wf req]
      wf_arrayD [OF wf prev] by auto
  define s1 where "s1 = snd (new_Profile now s)"
  have np: "new_Profile now s = (fresh s + 3, s1)"
    by (simp add: s1_def prod_eq_iff new_Profile_result)
  have s1: "arrays s1 = (arrays s)(fresh s \<mapsto> [], Suc (fresh s) \<mapsto> [now])"
      "metas s1 = (metas s)(fresh s + 2 \<mapsto>
           \<lparr>agent = JUndefined, github_user = JUndefined, github_repository = JUndefined,
            ignored_repositories = fresh s, schema_version = JNum PROFILE_SCHEMA_VERSION,
            schema_created_at = JStr now, schema_collected_ats = Suc (fresh s)\<rparr>)"
      "profiles s1 = (profiles s)(fresh s + 3 \<mapsto>
           \<lparr>meta = fresh s + 2, user = JUndefined, languages = JUndefined,
            repositories = JUndefined, activities = []\<rparr>)"
    by (simp_all add: s1_def new_Profile_result)
  show ?thesis
    unfolding createProfile_def fetched_def s1_def [symmetric] using pp pm req prev lt
    by (simp add: np s1 Let_def split: sum.splits option.splits)
qed


lemma createProfile_cases:
  assumes wf: "wf_store s"
    and pp: "profiles s prevProf = Some pp"
    and pm: "metas s (meta pp) = Some pm"
    and req: "arrays s ignoredRepos = Some requested"
    and prev: "arrays s (ignored_repositories pm) = Some previous"
    and ne: "ignoredRepos \<noteq> schema_collected_ats pm"
  shows "(\<exists>e. fetched api mergeByEventId (union_lodash requested previous) (activities pp) = Inl e
              \<and> createProfile depth now api mergeByEventId prevProf ignoredRepos s = Some (Inl e))
       \<or> (\<exists>githubUser repos langs uniqActs s' p' m'.
              fetched api mergeByEventId (union_lodash requested previous) (activities pp)
                = Inr (githubUser, repos, langs, uniqActs)
            \<and> createProfile depth now api mergeByEventId prevProf ignoredRepos s
                = Some (Inr (fresh s + 3, s'))
            \<and> wf_store s'
            \<and> profiles s' (fresh s + 3) = Some p'
            \<and> activities p' = uniqActs
            \<and> metas s' (meta p') = Some m'
            \<and> arrays s' (ignored_repositories m') = Some (union_lodash requested previous))"
proof (cases "fetched api mergeByEventId (union_lodash requested previous) (activities pp)")
  case (Inl e)
  then show ?thesis
    by (simp add: createProfile_unfold [OF wf pp pm req prev])
next
  case (Inr got)
  obtain githubUser repos langs uniqActs where got: "got = (githubUser, repos, langs, uniqActs)"
    by (cases got) auto
  let ?c = "fresh s + 3"
  let ?cm = "\<lparr>agent = JUndefined, github_user = JUndefined,
                         github_repository = JUndefined,
                         ignored_repositories = ignoredRepos,
                         schema_version = JNum PROFILE_SCHEMA_VERSION,
                         schema_created_at = JStr now,
                         schema_collected_ats = Suc (fresh s)\<rparr>"
  let ?cp = "\<lparr>meta = fresh s + 2, user = githubUser, languages = langs,
                         repositories = repos, activities = uniqActs\<rparr>"
  define s3 where "s3 = (snd (new_Profile now s))
                     \<lparr>metas := (metas s)(fresh s + 2 \<mapsto> ?cm),
                      profiles := (profiles s)(?c \<mapsto> ?cp)\<rparr>"
  have s3: "arrays s3 = (arrays s)(fresh s \<mapsto> [], Suc (fresh s) \<mapsto> [now])"
    "metas s3 = (metas s)(fresh s + 2 \<mapsto> ?cm)"
    "profiles s3 = (profiles s)(?c \<mapsto> ?cp)"
    "fresh s3 = fresh s + 4"
    by (simp_all add: s3_def new_Profile_result)
  have unfold: "createProfile depth now api mergeByEventId prevProf ignoredRepos s
          = (case updateMeta depth now ?c (meta pp) s3 of
               None \<Rightarrow> None
             | Some (p, s4) \<Rightarrow> Some (Inr (?c, s4)))"
    by (simp add: createProfile_unfold [OF wf pp pm req prev] Inr got s3_def)
  obtain cs where cs: "arrays s (schema_collected_ats pm) = Some cs"
    using wf_metaD [OF wf pm] by blast
  have lt: "prevProf < fresh s" "meta pp < fresh s" "ignoredRepos < fresh s"
    "ignored_repositories pm < fresh s" "schema_collected_ats pm < fresh s"
    using wf_profileD [OF wf pp] wf_metaD [OF wf pm] wf_arrayD [OF wf req]
      wf_arrayD [OF wf prev] wf_arrayD [OF wf cs] by auto
  have wf3: "wf_store s3"
    using wf lt req unfolding wf_store_def s3
    by (auto simp: less_Suc_eq dom_def split: if_splits intro: trans_less_add1)
  have c3: "profiles s3 ?c = Some ?cp"
    by (simp add: s3)
  have cm3: "metas s3 (meta ?cp) = Some ?cm"
    by (simp add: s3)
  have pm3: "metas s3 (meta pp) = Some pm"
    using lt pm by (simp add: s3)
  have xs3: "arrays s3 (ignored_repositories ?cm) = Some requested"
    using lt req by (simp add: s3)
  have ys3: "arrays s3 (ignored_repositories pm) = Some previous"
    using lt prev by (simp add: s3)
  have cs3: "arrays s3 (schema_collected_ats pm) = Some cs"
    using lt cs by (simp add: s3)
  from updateMeta_result [OF wf3 c3 cm3 pm3 xs3 ys3 cs3, of depth now]
  obtain s' m' i' c' where r: "updateMeta depth now ?c (meta pp) s3 = Some (?c, s')"
    "profiles s' = (profiles s3)(?c \<mapsto> ?cp\<lparr>meta := m'\<rparr>)"
    "metas s' = (metas s3)(m' \<mapsto> pm\<lparr>schema_collected_ats := c', ignored_repositories := i'\<rparr>)"
    "arrays s' i' = Some (union_lodash
                                  (if depth = Shallow
                                      \<and> ignored_repositories ?cm = schema_collected_ats pm
                                   then cs @ [now] else requested) previous)"
    by blast
  have "wf_store s'"
    using updateMeta_wf [OF wf3 c3 pm3 r(1)] .
  moreover have "createProfile depth now api mergeByEventId prevProf ignoredRepos s
                   = Some (Inr (?c, s'))"
    by (simp add: unfold r(1))
  moreover have "profiles s' ?c = Some (?cp\<lparr>meta := m'\<rparr>)"
    by (simp add: r(2))
  moreover have "metas s' m' = Some (pm\<lparr>schema_collected_ats := c', ignored_repositories := i'\<rparr>)"
    by (simp add: r(3))
  moreover have "arrays s' i' = Some (union_lodash requested previous)"
    using r(4) ne by simp
  ultimately have "\<exists>s' p' m'.
              createProfile depth now api mergeByEventId prevProf ignoredRepos s
                = Some (Inr (fresh s + 3, s'))
            \<and> wf_store s'
            \<and> profiles s' (fresh s + 3) = Some p'
            \<and> activities p' = uniqActs
            \<and> metas s' (meta p') = Some m'
            \<and> arrays s' (ignored_repositories m') = Some (union_lodash requested previous)"
    by (intro exI [of _ s'] exI [of _ "?cp\<lparr>meta := m'\<rparr>"]
          exI [of _ "pm\<lparr>schema_collected_ats := c', ignored_repositories := i'\<rparr>"]) simp
  then show ?thesis
    using Inr got by blast
qed


lemma newArray_wf:
  assumes "wf_store s"
  shows "wf_store (snd (newArray xs s))"
  using assms unfolding wf_store_def newArray_def
  by (auto simp: less_Suc_eq dom_def split: if_splits)

lemma merges_trace:
  assumes "wf_store s"
    and "profiles s prevProf = Some pp"
    and "metas s (meta pp) = Some pm"
    and "arrays s (ignored_repositories pm) = Some previous"
  shows "(\<exists>r. merges depth mergeByEventId prevProf runs s = Some r)
       \<and> (runsOk mergeByEventId previous (activities pp) runs
            \<longrightarrow> (\<exists>trace. merges depth mergeByEventId prevProf runs s = Some (Inr trace)))
       \<and> (\<forall>trace. merges depth mergeByEventId prevProf runs s = Some (Inr trace)
            \<longrightarrow> length trace = length runs
              \<and> (\<forall>n<length runs.
                    set ((previous # trace) ! Suc n)
                      = set (snd (snd (runs ! n))) \<union> set ((previous # trace) ! n)))"
  using assms
proof (induction runs arbitrary: s prevProf pp pm previous)
  case Nil
  show ?case by simp
next
  case (Cons run runs)
  obtain now api requested where run: "run = (now, api, requested)"
    by (cases run) auto
  define s1 where "s1 = snd (newArray requested s)"
  have na: "newArray requested s = (fresh s, s1)"
    by (simp add: s1_def newArray_def)
  have wf1: "wf_store s1"
    unfolding s1_def by (rule newArray_wf [OF Cons.prems(1)])
  obtain cs where cs: "arrays s (schema_collected_ats pm) = Some cs"
    using wf_metaD [OF Cons.prems(1,3)] by blast
  have lt: "ignored_repositories pm < fresh s" "schema_collected_ats pm < fresh s"
    using wf_arrayD [OF Cons.prems(1,4)] wf_arrayD [OF Cons.prems(1) cs] by auto
  have s1: "profiles s1 prevProf = Some pp" "metas s1 (meta pp) = Some pm"
    "arrays s1 (fresh s) = Some requested"
    "arrays s1 (ignored_repositories pm) = Some previous"
    "fresh s \<noteq> schema_collected_ats pm"
    using Cons.prems lt by (auto simp: s1_def newArray_def)
  let ?U = "union_lodash requested previous"
  from createProfile_cases [OF wf1 s1, of api mergeByEventId depth now]
  show ?case
  proof (elim disjE exE conjE)
    fix e
    assume f: "fetched api mergeByEventId ?U (activities pp) = Inl e"
      and c: "createProfile depth now api mergeByEventId prevProf (fresh s) s1 = Some (Inl e)"
    have "merges depth mergeByEventId prevProf (run # runs) s = Some (Inl e)"
      by (simp add: run na c)
    moreover have "\<not> runsOk mergeByEventId previous (activities pp) (run # runs)"
      by (simp add: run f)
    ultimately show ?thesis
      by simp
  next
    fix githubUser repos langs uniqActs s2 p' m'
    assume f: "fetched api mergeByEventId ?U (activities pp)
                 = Inr (githubUser, repos, langs, uniqActs)"
      and c: "createProfile depth now api mergeByEventId prevProf (fresh s) s1
                = Some (Inr (fresh s1 + 3, s2))"
      and r: "wf_store s2" "profiles s2 (fresh s1 + 3) = Some p'" "activities p' = uniqActs"
        "metas s2 (meta p') = Some m'" "arrays s2 (ignored_repositories m') = Some ?U"
    have ig: "ignoredOf s2 (fresh s1 + 3) = Some ?U"
      using r by (simp add: ignoredOf_def)
    note IH = Cons.IH [OF r(1,2,4,5)]
    have step: "merges depth mergeByEventId prevProf (run # runs) s
        = (case merges depth mergeByEventId (fresh s1 + 3) runs s2 of
             None \<Rightarrow> None
           | Some (Inl e) \<Rightarrow> Some (Inl e)
           | Some (Inr rest) \<Rightarrow> Some (Inr (?U # rest)))"
      by (simp add: run na c ig)
    have ok: "runsOk mergeByEventId previous (activities pp) (run # runs)
                = runsOk mergeByEventId ?U (activities p') runs"
      by (simp add: run f r(3))
    have "\<exists>r. merges depth mergeByEventId prevProf (run # runs) s = Some r"
      using IH unfolding step by (auto split: sum.splits)
    moreover have "runsOk mergeByEventId previous (activities pp) (run # runs)
            \<longrightarrow> (\<exists>trace. merges depth mergeByEventId prevProf (run # runs) s = Some (Inr trace))"
      using IH unfolding step ok by auto
    moreover have "\<forall>trace. merges depth mergeByEventId prevProf (run # runs) s = Some (Inr trace)
            \<longrightarrow> length trace = length (run # runs)
              \<and> (\<forall>n<length (run # runs).
                    set ((previous # trace) ! Suc n)
                      = set (snd (snd ((run # runs) ! n))) \<union> set ((previous # trace) ! n))"
    proof (intro allI impI)
      fix trace
      assume "merges depth mergeByEventId prevProf (run # runs) s = Some (Inr trace)"
      then obtain rest where rest: "merges depth mergeByEventId (fresh s1 + 3) runs s2 = Some (Inr rest)"
        and trace: "trace = ?U # rest"
        unfolding step by (auto split: option.splits sum.splits)
      from IH rest have len: "length rest = length runs"
        and mono: "\<forall>n<length runs.
                    set ((?U # rest) ! Suc n)
                      = set (snd (snd (runs ! n))) \<union> set ((?U # rest) ! n)"
        by blast+
      have "\<forall>n<length (run # runs).
                    set ((previous # ?U # rest) ! Suc n)
                      = set (snd (snd ((run # runs) ! n))) \<union> set ((previous # ?U # rest) ! n)"
      proof (intro allI impI)
        fix n assume "n < length (run # runs)"
        then show "set ((previous # ?U # rest) ! Suc n)
                      = set (snd (snd ((run # runs) ! n))) \<union> set ((previous # ?U # rest) ! n)"
          using mono by (cases n) (auto simp: run set_union_lodash)
      qed
      then show "length trace = length (run # runs)
              \<and> (\<forall>n<length (run # runs).
                    set ((previous # trace) ! Suc n)
                      = set (snd (snd ((run # runs) ! n))) \<union> set ((previous # trace) ! n))"
        using len trace by simp
    qed
    ultimately show ?thesis
      by blast
  qed
qed

lemma scenario_previous:
  "profiles scenario_store 3
     = Some \<lparr>meta = 2, user = JNull, languages = JArr [], repositories = JArr [],
             activities = [JObj [(''event_id'', JStr ''1''), (''type'', JStr ''PushEvent'')]]\<rparr>"
  by (simp add: scenario_store_def)

lemmas printProfile_defs =
  printProfile_def printLanguages_def printRepositories_def printActivities_def
  mergeActivities_def allActs_def rawField_def

lemma scenario_fetched:
  "fetched scenario_github (\<lambda>prevActs currentActs. mergeActivities currentActs prevActs)
     [''repoB'', ''repoA'']
     [JObj [(''event_id'', JStr ''1''), (''type'', JStr ''PushEvent'')]]
   = Inr (JObj [(''login'', JStr ''1ambda''),
                (''created_at'', JStr ''2014-05-01T00:00:00Z''),
                (''following'', JNum 3), (''followers'', JNum 5),
                (''public_repos'', JNum 2), (''public_gists'', JNum 0)],
          JArr [JObj [(''name'', JStr ''oh-my-github''),
                      (''watchers_count'', JNum 4),
                      (''stargazers_count'', JNum 4),
                      (''forks_count'', JNum 1)]],
          JArr [JObj [(''repository_name'', JStr ''oh-my-github''),
                      (''languages'', JArr [JObj [(''name'', JStr ''TypeScript''),
                                                  (''line'', JNum 1200)]])]],
          [JObj [(''event_id'', JStr ''2''), (''type'', JStr ''IssuesEvent'')],
           JObj [(''event_id'', JStr ''1''), (''type'', JStr ''PushEvent'')]])"
  by (simp add: fetched_def scenario_github_def printProfile_defs)

lemma scenario_fetched_again:
  "fetched scenario_github (\<lambda>prevActs currentActs. mergeActivities currentActs prevActs)
     [''repoB'', ''repoA'']
     [JObj [(''event_id'', JStr ''2''), (''type'', JStr ''IssuesEvent'')],
      JObj [(''event_id'', JStr ''1''), (''type'', JStr ''PushEvent'')]]
   = Inr (JObj [(''login'', JStr ''1ambda''),
                (''created_at'', JStr ''2014-05-01T00:00:00Z''),
                (''following'', JNum 3), (''followers'', JNum 5),
                (''public_repos'', JNum 2), (''public_gists'', JNum 0)],
          JArr [JObj [(''name'', JStr ''oh-my-github''),
                      (''watchers_count'', JNum 4),
                      (''stargazers_count'', JNum 4),
                      (''forks_count'', JNum 1)]],
          JArr [JObj [(''repository_name'', JStr ''oh-my-github''),
                      (''languages'', JArr [JObj [(''name'', JStr ''TypeScript''),
                                                  (''line'', JNum 1200)]])]],
          [JObj [(''event_id'', JStr ''2''), (''type'', JStr ''IssuesEvent'')],
           JObj [(''event_id'', JStr ''1''), (''type'', JStr ''PushEvent'')]])"
  by (simp add: fetched_def scenario_github_def printProfile_defs)

lemma scenario_union:
  "union_lodash [''repoB''] [''repoA''] = [''repoB'', ''repoA'']"
  "union_lodash [] [''repoB'', ''repoA''] = [''repoB'', ''repoA'']"
  by (simp_all add: union_lodash_def)

text \<open>
  C6. After a merge, the new ignored_repositories is the set union of the requested ignore
  list and the previous snapshot's ignored_repositories, and in every sequence of merges
  the ignore set after merge N is a superset of its value after merge N - 1.
  \<^verbatim>\<open>createProfile\<close> on a well-formed store that holds the previous profile always ends:
  it is rejected (a request, the merge of the activities or \<^verbatim>\<open>printProfile\<close> threw, and
  then no profile is returned), or it is fulfilled, and it is fulfilled whenever none of
  these throws. Whenever it is fulfilled, the ignore list of the profile it returns is
  \<^verbatim>\<open>_.union(requested, previous)\<close>, as a set the union of the two. A sequence of merges
  always ends as well, runs to its end when no run rejects, and whenever it does the ignore
  sets along it grow. The requested array is not the array of the previous collection
  timestamps; the copy of the previous MetaField may share its arrays or not.
\<close>

theorem ignored_repositories_grow:
  assumes "wf_store s"
    and "profiles s prevProf = Some pp"
    and "metas s (meta pp) = Some pm"
    and "arrays s (ignored_repositories pm) = Some previous"
  shows "(arrays s ignoredRepos = Some requested \<and> ignoredRepos \<noteq> schema_collected_ats pm
          \<longrightarrow> (\<exists>r. createProfile depth now api mergeByEventId prevProf ignoredRepos s = Some r)
            \<and> (\<forall>got. fetched api mergeByEventId (union_lodash requested previous) (activities pp)
                        = Inr got
                  \<longrightarrow> (\<exists>currentProf s'.
                         createProfile depth now api mergeByEventId prevProf ignoredRepos s
                           = Some (Inr (currentProf, s'))))
            \<and> (\<forall>currentProf s'.
                  createProfile depth now api mergeByEventId prevProf ignoredRepos s
                    = Some (Inr (currentProf, s'))
                  \<longrightarrow> ignoredOf s' currentProf = Some (union_lodash requested previous)
                    \<and> set (union_lodash requested previous) = set requested \<union> set previous))
       \<and> (\<exists>r. merges depth mergeByEventId prevProf runs s = Some r)
       \<and> (runsOk mergeByEventId previous (activities pp) runs
            \<longrightarrow> (\<exists>trace. merges depth mergeByEventId prevProf runs s = Some (Inr trace)))
       \<and> (\<forall>trace. merges depth mergeByEventId prevProf runs s = Some (Inr trace)
            \<longrightarrow> length trace = length runs
              \<and> (\<forall>n<length runs.
                    set ((previous # trace) ! n) \<subseteq> set ((previous # trace) ! Suc n)))"
proof -
  have one: "(\<exists>r. createProfile depth now api mergeByEventId prevProf ignoredRepos s = Some r)
            \<and> (\<forall>got. fetched api mergeByEventId (union_lodash requested previous) (activities pp)
                        = Inr got
                  \<longrightarrow> (\<exists>currentProf s'.
                         createProfile depth now api mergeByEventId prevProf ignoredRepos s
                           = Some (Inr (currentProf, s'))))
            \<and> (\<forall>currentProf s'.
                  createProfile depth now api mergeByEventId prevProf ignoredRepos s
                    = Some (Inr (currentProf, s'))
                  \<longrightarrow> ignoredOf s' currentProf = Some (union_lodash requested previous)
                    \<and> set (union_lodash requested previous) = set requested \<union> set previous)"
    if a: "arrays s ignoredRepos = Some requested" "ignoredRepos \<noteq> schema_collected_ats pm"
    using createProfile_cases [OF assms(1,2,3) a(1) assms(4) a(2), of api mergeByEventId depth now]
    by (elim disjE exE conjE) (auto simp: ignoredOf_def set_union_lodash)
  from merges_trace [OF assms, of depth mergeByEventId runs]
  have two: "(\<exists>r. merges depth mergeByEventId prevProf runs s = Some r)
       \<and> (runsOk mergeByEventId previous (activities pp) runs
            \<longrightarrow> (\<exists>trace. merges depth mergeByEventId prevProf runs s = Some (Inr trace)))
       \<and> (\<forall>trace. merges depth mergeByEventId prevProf runs s = Some (Inr trace)
            \<longrightarrow> length trace = length runs
              \<and> (\<forall>n<length runs.
                    set ((previous # trace) ! n) \<subseteq> set ((previous # trace) ! Suc n)))"
    by (elim conjE) (intro conjI, assumption, assumption, auto)
  from one two show ?thesis
    by blast
qed

theorem ignored_repositories_grow_witness:
  "(\<exists>currentProf s'.
       createProfile Deep ''2020-03-01T00:00:00Z'' scenario_github
         (\<lambda>prevActs currentActs. mergeActivities currentActs prevActs) 3 4 scenario_store
         = Some (Inr (currentProf, s'))
     \<and> ignoredOf s' currentProf = Some [''repoB'', ''repoA''])
   \<and> (\<exists>trace.
         merges Deep (\<lambda>prevActs currentActs. mergeActivities currentActs prevActs) 3
           [(''2020-03-01T00:00:00Z'', scenario_github, [''repoB'']),
            (''2020-04-01T00:00:00Z'', scenario_github, [])]
           scenario_store = Some (Inr trace)
       \<and> length trace = 2
       \<and> set [''repoA''] \<subseteq> set (trace ! 0)
       \<and> set (trace ! 0) \<subseteq> set (trace ! 1))"
proof -
  let ?mbe = "(\<lambda>prevActs currentActs. mergeActivities currentActs prevActs)"
  let ?runs = "[(''2020-03-01T00:00:00Z'', scenario_github, [''repoB'']),
                (''2020-04-01T00:00:00Z'', scenario_github, [])]"
  let ?pp = "\<lparr>meta = 2, user = JNull, languages = JArr [], repositories = JArr [],
             activities = [JObj [(''event_id'', JStr ''1''), (''type'', JStr ''PushEvent'')]]\<rparr>"
  let ?pm = "\<lparr>agent = JStr ''oh-my-github'', github_user = JStr ''1ambda'',
               github_repository = JStr ''oh-my-github'',
               ignored_repositories = 0, schema_version = JNum 1,
               schema_created_at = JStr ''2020-01-01T00:00:00Z'',
               schema_collected_ats = 1\<rparr> :: addr MetaField"
  have m: "metas scenario_store (meta ?pp) = Some ?pm"
    by (simp add: scenario_store_def)
  have a: "arrays scenario_store (ignored_repositories ?pm) = Some [''repoA'']"
    by (simp add: scenario_store_def)
  have b: "arrays scenario_store 4 = Some [''repoB''] \<and> 4 \<noteq> schema_collected_ats ?pm"
    by (simp add: scenario_store_def)
  have ok: "runsOk ?mbe [''repoA''] (activities ?pp) ?runs"
    by (simp add: scenario_union scenario_fetched scenario_fetched_again)
  note t = ignored_repositories_grow
    [OF wf_scenario_store scenario_previous m a, of 4 "[''repoB'']" Deep
       "''2020-03-01T00:00:00Z''" scenario_github ?mbe ?runs]
  note one = t [THEN conjunct1, rule_format, OF b]
  from one [THEN conjunct2, THEN conjunct1, rule_format] scenario_fetched
  obtain currentProf s' where c:
    "createProfile Deep ''2020-03-01T00:00:00Z'' scenario_github ?mbe 3 4 scenario_store
       = Some (Inr (currentProf, s'))"
    by (auto simp: scenario_union)
  from one [THEN conjunct2, THEN conjunct2, rule_format, OF c]
  have "ignoredOf s' currentProf = Some [''repoB'', ''repoA'']"
    by (simp add: scenario_union)
  with c have first: "\<exists>currentProf s'.
       createProfile Deep ''2020-03-01T00:00:00Z'' scenario_github ?mbe 3 4 scenario_store
         = Some (Inr (currentProf, s'))
     \<and> ignoredOf s' currentProf = Some [''repoB'', ''repoA'']"
    by blast
  from t [THEN conjunct2, THEN conjunct2, THEN conjunct1, rule_format, OF ok]
  obtain trace where tr: "merges Deep ?mbe 3 ?runs scenario_store = Some (Inr trace)"
    by blast
  from t [THEN conjunct2, THEN conjunct2, THEN conjunct2, rule_format, OF tr]
  have "length trace = 2
       \<and> set [''repoA''] \<subseteq> set (trace ! 0)
       \<and> set (trace ! 0) \<subseteq> set (trace ! 1)"
    by (auto simp: All_less_Suc numeral_2_eq_2)
  with tr have "\<exists>trace.
         merges Deep ?mbe 3 ?runs scenario_store = Some (Inr trace)
       \<and> length trace = 2
       \<and> set [''repoA''] \<subseteq> set (trace ! 0)
       \<and> set (trace ! 0) \<subseteq> set (trace ! 1)"
    by blast
  with first show ?thesis
    by blast
qed

text \<open>
  What a merge returns can be merged with itself: it is its own result.
\<close>

lemma merged_activities_remerge:
  assumes "mergeActivities A B = Inr acts"
  shows "mergeActivities acts acts = Inr acts"
proof -
  have acts: "acts = keepFirst {} (allActs A B)"
    using assms by (simp add: mergeActivities_keepFirst)
  have "set acts \<subseteq> set (allActs A B)"
    unfolding acts by (rule set_keepFirst)
  then have ne: "\<forall>a\<in>set (acts @ acts). \<not> isEmpty a"
    by (auto simp: allActs_def)
  have "allActs acts acts = acts @ acts"
    unfolding allActs_def using ne by (metis (mono_tags, lifting) filter_True)
  moreover have "distinct (map eventIdOf acts)"
    unfolding acts by (rule distinct_keepFirst)
  ultimately show ?thesis
    by (simp add: mergeActivities_keepFirst keepFirst_append keepFirst_distinct keepFirst_seen)
qed

text \<open>
  C7. Merging a snapshot with an identical copy of itself: when the activities are events
  with distinct ids, as a merge leaves them, the merged activities are the activities of
  the input, entry for entry (same set, same count, no duplicate), and the
  \<open>schema_collected_ats\<close> of the result has one entry more than the previous one.
\<close>

theorem remerge_is_idempotent:
  assumes "\<forall>a\<in>set (activities pp). isEvent a"
    and "distinct (map eventIdOf (activities pp))"
    and "wf_store s"
    and "profiles s currentProfile = Some pc"
    and "profiles s prevProfile = Some pp"
    and "activities pc = activities pp"
    and "metas s (meta pp) = Some pm"
    and "arrays s (schema_collected_ats pm) = Some collected"
  shows "mergeActivities (activities pc) (activities pp) = Inr (activities pp)
         \<and> (\<exists>s' p' m' collected'.
               updateMeta depth now currentProfile (meta pp) s = Some (currentProfile, s')
             \<and> profiles s' currentProfile = Some p'
             \<and> activities p' = activities pc
             \<and> metas s' (meta p') = Some m'
             \<and> arrays s' (schema_collected_ats m') = Some collected'
             \<and> length collected' = Suc (length collected))"
proof
  let ?acts = "activities pp"
  have "allActs ?acts ?acts = ?acts @ ?acts"
    using assms(1) by (intro allActs_events) auto
  then have "mergeActivities ?acts ?acts = Inr (keepFirst {} (?acts @ ?acts))"
    by (simp add: mergeActivities_keepFirst)
  also have "keepFirst {} (?acts @ ?acts) = ?acts"
    using assms(2) by (simp add: keepFirst_append keepFirst_distinct keepFirst_seen)
  finally show "mergeActivities (activities pc) (activities pp) = Inr (activities pp)"
    by (simp add: assms(6))
next
  obtain cm where cm: "metas s (meta pc) = Some cm"
    using wf_profileD [OF assms(3,4)] by blast
  obtain xs where xs: "arrays s (ignored_repositories cm) = Some xs"
    using wf_metaD [OF assms(3) cm] by blast
  obtain ys where ys: "arrays s (ignored_repositories pm) = Some ys"
    using wf_metaD [OF assms(3,7)] by blast
  from updateMeta_result [OF assms(3,4) cm assms(7) xs ys assms(8), of depth now]
  show "\<exists>s' p' m' collected'.
               updateMeta depth now currentProfile (meta pp) s = Some (currentProfile, s')
             \<and> profiles s' currentProfile = Some p'
             \<and> activities p' = activities pc
             \<and> metas s' (meta p') = Some m'
             \<and> arrays s' (schema_collected_ats m') = Some collected'
             \<and> length collected' = Suc (length collected)"
    by (elim exE conjE) (simp del: fun_upd_apply, simp)
qed

theorem remerge_is_idempotent_witness:
  "mergeActivities
     [JObj [(''event_id'', JStr ''2''), (''type'', JStr ''IssuesEvent'')],
      JObj [(''event_id'', JStr ''1''), (''type'', JStr ''PushEvent'')]]
     [JObj [(''event_id'', JStr ''2''), (''type'', JStr ''IssuesEvent'')],
      JObj [(''event_id'', JStr ''1''), (''type'', JStr ''PushEvent'')]]
   = Inr [JObj [(''event_id'', JStr ''2''), (''type'', JStr ''IssuesEvent'')],
          JObj [(''event_id'', JStr ''1''), (''type'', JStr ''PushEvent'')]]
   \<and> (\<exists>s' p' m' collected'.
         updateMeta Deep ''2020-03-01T00:00:00Z'' 7 6 scenario_store = Some (7, s')
       \<and> profiles s' 7 = Some p'
       \<and> metas s' (meta p') = Some m'
       \<and> arrays s' (schema_collected_ats m') = Some collected'
       \<and> length collected' = 2)"
proof -
  let ?p = "\<lparr>meta = 6, user = JNull, languages = JArr [], repositories = JArr [],
             activities = [JObj [(''event_id'', JStr ''2''), (''type'', JStr ''IssuesEvent'')],
                           JObj [(''event_id'', JStr ''1''), (''type'', JStr ''PushEvent'')]]\<rparr>"
  let ?m = "\<lparr>agent = JUndefined, github_user = JUndefined,
                         github_repository = JUndefined,
                         ignored_repositories = 4, schema_version = JNum 1,
                         schema_created_at = JStr ''2020-02-01T00:00:00Z'',
                         schema_collected_ats = 5\<rparr> :: addr MetaField"
  have ev: "\<forall>a\<in>set (activities ?p). isEvent a"
    by (simp add: isEvent_def eventIdOf_def rawField_def)
  have di: "distinct (map eventIdOf (activities ?p))"
    by (simp add: eventIdOf_def rawField_def)
  have m: "metas scenario_store (meta ?p) = Some ?m"
    by (simp add: scenario_store_def)
  have c: "arrays scenario_store (schema_collected_ats ?m) = Some [''2020-02-01T00:00:00Z'']"
    by (simp add: scenario_store_def)
  from remerge_is_idempotent [OF ev di wf_scenario_store scenario_profile scenario_profile refl m c,
      of Deep "''2020-03-01T00:00:00Z''"]
  show ?thesis
    by (elim conjE exE) auto
qed

end
